theory Spec2Isabelle
  imports Main "HOL-Library.AList"
begin

section \<open>The rule engine of the validator (base.py)\<close>

text \<open>
  The module defines the classes every validation rule derives from (\<open>SchemaHandler\<close>,
  \<open>BaseRule\<close>, \<open>TreeRule\<close>, \<open>ValidReferenceRule\<close>, \<open>DateRule\<close>) and the
  \<open>RulesRegistry\<close> that instantiates the rules, dispatches them over the document and
  counts what they raise. The embedding keeps the names of the module. Mutable objects are
  records that a function takes and returns; a Python exception is a value
  (\<open>py_exception\<close>) returned next to the state reached when it was raised.
\<close>

subsection \<open>Elements of a parsed document\<close>

text \<open>
  An lxml element as the module reads it: its tag, its attributes, its text (\<open>None\<close>
  for an element with no text), the line it was parsed from and its child elements.
\<close>

datatype element =
  Element (tag: string) (attrib: "(string \<times> string) list") (text_of: "string option")
    (sourceline: "int option") (children: "element list")

text \<open>\<open>element.find(name)\<close> with a plain tag name: the first child with that tag.\<close>

definition find_child :: "element \<Rightarrow> string \<Rightarrow> element option" where
  "find_child el name = List.find (\<lambda>c. tag c = name) (children el)"

text \<open>
  \<open>etree.iterwalk(tree, events=("end",))\<close>: every element is delivered when it closes,
  that is after all of its children.
\<close>

fun iterwalk :: "element \<Rightarrow> element list" where
  "iterwalk (Element t a x l cs) = concat (map iterwalk cs) @ [Element t a x l cs]"

subsection \<open>Exceptions\<close>

text \<open>
  Modelled from the spec: the module \<open>loggers\<close> is not part of the sources. It supplies
  \<open>ElectionException\<close>, the three severity classes \<open>ElectionInfo\<close>,
  \<open>ElectionWarning\<close> and \<open>ElectionError\<close> that derive from it, and
  \<open>ErrorLogEntry\<close>. An exception object is kept as the set of severity classes its class
  derives from (empty for a bare \<open>ElectionException\<close>), its message and its error log.
\<close>

datatype severity = ElectionInfo | ElectionWarning | ElectionError

record ErrorLogEntry =
  line :: "int option"
  message :: string

record ElectionException =
  severities :: "severity set"
  error_message :: string
  error_log :: "ErrorLogEntry list"

datatype py_exception =
    Election ElectionException
  | TypeError
  | AttributeError
  | KeyError
  | NotImplementedError
  | OtherException string

text \<open>\<open>except loggers.ElectionException\<close> catches exactly the first kind.\<close>

fun is_election_exception :: "py_exception \<Rightarrow> bool" where
  "is_election_exception (Election e) = True"
| "is_election_exception _ = False"

subsection \<open>\<open>SchemaHandler\<close>\<close>

definition XSCHEMA_INSTANCE_NAMESPACE :: string where
  "XSCHEMA_INSTANCE_NAMESPACE = ''http://www.w3.org/2001/XMLSchema-instance''"

definition TYPE_ATTRIB :: string where
  "TYPE_ATTRIB = ''{'' @ XSCHEMA_INSTANCE_NAMESPACE @ ''}type''"

definition get_element_class :: "element option \<Rightarrow> string option" where
  "get_element_class element =
     (case element of
        None \<Rightarrow> None
      | Some el \<Rightarrow>
          (if map_of (attrib el) TYPE_ATTRIB = None then Some (tag el)
           else map_of (attrib el) TYPE_ATTRIB))"

subsection \<open>\<open>BaseRule\<close> and \<open>RuleOption\<close>\<close>

text \<open>Values that options and instance attributes hold.\<close>

datatype pyval = PyNone | PyBool bool | PyInt int | PyStr string | PyTree element

record RuleOption =
  option_name :: string
  option_value :: pyval

text \<open>
  A rule class is given by the identity of the class object (\<open>rc_id\<close>: two classes are
  the same object exactly when they have the same identity), its \<open>__name__\<close>, the names
  defined at class level (methods and class attributes, which \<open>hasattr\<close> sees), and the
  behaviour of its constructor, \<open>setup\<close>, \<open>elements\<close> and \<open>check\<close> on the instance
  dictionary. \<open>check\<close> receives \<open>None\<close> when it is called without an element.
  Any of them may raise. A dictionary keyed by class objects is keyed by \<open>class_key\<close>,
  the identity together with the name (which \<open>print_exceptions\<close> reads from the key).
\<close>

type_synonym instance_dict = "string \<rightharpoonup> pyval"

record rule_class =
  rc_id :: nat
  rc_name :: string
  rc_class_attrs :: "string list"
  rc_init :: "pyval \<Rightarrow> pyval \<Rightarrow> py_exception + instance_dict"
  rc_setup :: "instance_dict \<Rightarrow> py_exception option \<times> instance_dict"
  rc_elements :: "instance_dict \<Rightarrow> py_exception + string list"
  rc_check :: "instance_dict \<Rightarrow> element option \<Rightarrow> py_exception option \<times> instance_dict"

record rule_instance =
  rule_cls :: rule_class
  rule_dict :: instance_dict

type_synonym class_key = "nat \<times> string"

definition class_key :: "rule_class \<Rightarrow> class_key" where
  "class_key rc = (rc_id rc, rc_name rc)"

definition hasattr :: "rule_instance \<Rightarrow> string \<Rightarrow> bool" where
  "hasattr self name \<longleftrightarrow>
     rule_dict self name \<noteq> None \<or> name \<in> set (rc_class_attrs (rule_cls self))"

definition setattr :: "rule_instance \<Rightarrow> string \<Rightarrow> pyval \<Rightarrow> rule_instance" where
  "setattr self name v = self\<lparr>rule_dict := (rule_dict self)(name \<mapsto> v)\<rparr>"

definition invalid_attribute :: py_exception where
  "invalid_attribute =
     Election \<lparr>severities = {}, error_message = ''Invalid attribute set'', error_log = []\<rparr>"

definition set_option :: "rule_instance \<Rightarrow> RuleOption \<Rightarrow> py_exception option \<times> rule_instance" where
  "set_option self option =
     (if \<not> hasattr self (option_name option) then (Some invalid_attribute, self)
      else (None, setattr self (option_name option) (option_value option)))"

text \<open>\<open>BaseRule.__init__\<close> stores the two trees.\<close>

definition BaseRule_init :: "pyval \<Rightarrow> pyval \<Rightarrow> instance_dict" where
  "BaseRule_init election_tree schema_tree =
     [''election_tree'' \<mapsto> election_tree, ''schema_tree'' \<mapsto> schema_tree]"

text \<open>
  The names every instance of a class derived from \<open>object\<close> has (Python 3.11), then
  those that \<open>SchemaHandler\<close> and \<open>BaseRule\<close> define.
\<close>

definition object_attrs :: "string list" where
  "object_attrs =
     [''__class__'', ''__delattr__'', ''__dict__'', ''__dir__'', ''__doc__'', ''__eq__'',
      ''__format__'', ''__ge__'', ''__getattribute__'', ''__getstate__'', ''__gt__'',
      ''__hash__'', ''__init__'', ''__init_subclass__'', ''__le__'', ''__lt__'',
      ''__module__'', ''__ne__'', ''__new__'', ''__reduce__'', ''__reduce_ex__'',
      ''__repr__'', ''__setattr__'', ''__sizeof__'', ''__str__'', ''__subclasshook__'',
      ''__weakref__'']"

definition SchemaHandler_attrs :: "string list" where
  "SchemaHandler_attrs =
     object_attrs @
     [''_XSCHEMA_NAMESPACE'', ''_XSCHEMA_INSTANCE_NAMESPACE'', ''_TYPE_ATTRIB'',
      ''get_element_class'', ''strip_schema_ns'', ''get_elements_by_class'']"

definition BaseRule_attrs :: "string list" where
  "BaseRule_attrs = SchemaHandler_attrs @ [''elements'', ''check'', ''set_option'', ''setup'']"

text \<open>
  \<open>BaseRule\<close> itself: \<open>elements\<close> and \<open>check(element)\<close> raise
  \<open>NotImplementedError\<close>, \<open>setup\<close> does nothing. \<open>check\<close> takes an element, so
  calling it without one is a \<open>TypeError\<close>.
\<close>

definition BaseRule :: rule_class where
  "BaseRule =
     \<lparr>rc_id = 0, rc_name = ''BaseRule'', rc_class_attrs = BaseRule_attrs,
      rc_init = (\<lambda>et st. Inr (BaseRule_init et st)),
      rc_setup = (\<lambda>d. (None, d)),
      rc_elements = (\<lambda>d. Inl NotImplementedError),
      rc_check = (\<lambda>d el. case el of None \<Rightarrow> (Some TypeError, d)
                                   | Some _ \<Rightarrow> (Some NotImplementedError, d))\<rparr>"

text \<open>
  \<open>TreeRule\<close>: registered under the key \<open>"tree"\<close>; its \<open>check()\<close> takes no element and
  does nothing.
\<close>

definition TreeRule :: rule_class where
  "TreeRule =
     BaseRule\<lparr>rc_id := 1, rc_name := ''TreeRule'',
       rc_elements := (\<lambda>d. Inr [''tree'']),
       rc_check := (\<lambda>d el. case el of None \<Rightarrow> (None, d) | Some _ \<Rightarrow> (Some TypeError, d))\<rparr>"

subsection \<open>\<open>ValidReferenceRule\<close>\<close>

text \<open>\<open>sep.join(xs)\<close>.\<close>

fun join :: "string \<Rightarrow> string list \<Rightarrow> string" where
  "join sep [] = []"
| "join sep [x] = x"
| "join sep (x # y # ys) = x @ sep @ join sep (y # ys)"

definition election_error :: "string \<Rightarrow> ErrorLogEntry list \<Rightarrow> py_exception" where
  "election_error msg log =
     Election \<lparr>severities = {ElectionError}, error_message = msg, error_log = log\<rparr>"

text \<open>
  \<open>ValidReferenceRule.check\<close>. The two gathered sets are arguments (the gather methods are
  abstract). Python does not fix the order in which \<open>join\<close> iterates over a set, so the
  iteration order \<open>iter\<close> is an argument as well. The result is the exception raised, or
  \<open>None\<close> for a normal return.
\<close>

definition ValidReferenceRule_check ::
  "(string set \<Rightarrow> string list) \<Rightarrow> string \<Rightarrow> string set \<Rightarrow> string set \<Rightarrow> py_exception option" where
  "ValidReferenceRule_check iter missing_element reference_ids defined_ids =
     (let invalid_references = reference_ids - defined_ids in
      if invalid_references \<noteq> {} then
        Some (election_error
          (''No defined '' @ missing_element @ '' for '' @
             join '', '' (iter invalid_references) @ '' found in the feed.'') [])
      else None)"

subsection \<open>Calendar dates (the \<open>datetime\<close> collaborator)\<close>

text \<open>
  A \<open>datetime.date\<close>, with the arithmetic the standard library documents: the proleptic
  Gregorian ordinal of a date (1 for 0001-01-01), and the difference of two dates in days
  as the difference of their ordinals.
\<close>

record date =
  year :: int
  month :: int
  day :: int

definition is_leap :: "int \<Rightarrow> bool" where
  "is_leap y \<longleftrightarrow> y mod 4 = 0 \<and> (y mod 100 \<noteq> 0 \<or> y mod 400 = 0)"

definition days_in_month :: "int \<Rightarrow> int \<Rightarrow> int" where
  "days_in_month y m =
     (if m = 2 \<and> is_leap y then 29
      else [31, 28, 31, 30, 31, 30, 31, 31, 30, 31, 30, 31] ! nat (m - 1))"

definition days_before_month :: "int \<Rightarrow> int \<Rightarrow> int" where
  "days_before_month y m =
     [0, 31, 59, 90, 120, 151, 181, 212, 243, 273, 304, 334] ! nat (m - 1) +
     (if m > 2 \<and> is_leap y then 1 else 0)"

definition days_before_year :: "int \<Rightarrow> int" where
  "days_before_year y = (y - 1) * 365 + (y - 1) div 4 - (y - 1) div 100 + (y - 1) div 400"

definition toordinal :: "date \<Rightarrow> int" where
  "toordinal d = days_before_year (year d) + days_before_month (year d) (month d) + day d"

text \<open>The dates a \<open>date\<close> object can hold.\<close>

definition valid_date :: "date \<Rightarrow> bool" where
  "valid_date d \<longleftrightarrow>
     1 \<le> year d \<and> year d \<le> 9999 \<and> 1 \<le> month d \<and> month d \<le> 12 \<and>
     1 \<le> day d \<and> day d \<le> days_in_month (year d) (month d)"

text \<open>\<open>(a - b).days\<close>.\<close>

definition days_between :: "date \<Rightarrow> date \<Rightarrow> int" where
  "days_between a b = toordinal a - toordinal b"

text \<open>The order of the calendar: year, then month, then day.\<close>

definition earlier :: "date \<Rightarrow> date \<Rightarrow> bool" where
  "earlier a b \<longleftrightarrow>
     year a < year b \<or>
     (year a = year b \<and> (month a < month b \<or> (month a = month b \<and> day a < day b)))"

text \<open>Decimal numerals, \<open>str(n)\<close> for an integer, and padding.\<close>

fun show_nat :: "nat \<Rightarrow> string" where
  "show_nat n =
     (if n < 10 then [''0123456789'' ! n]
      else show_nat (n div 10) @ [''0123456789'' ! (n mod 10)])"

declare show_nat.simps [simp del]

definition show_int :: "int \<Rightarrow> string" where
  "show_int i = (if i < 0 then ''-'' @ show_nat (nat (- i)) else show_nat (nat i))"

definition rjust :: "nat \<Rightarrow> char \<Rightarrow> string \<Rightarrow> string" where
  "rjust width fill s = replicate (width - length s) fill @ s"

text \<open>\<open>str(d)\<close> for a date: \<open>yyyy-mm-dd\<close>, zero-padded.\<close>

definition isoformat :: "date \<Rightarrow> string" where
  "isoformat d =
     rjust 4 (CHR ''0'') (show_int (year d)) @ ''-'' @ rjust 2 (CHR ''0'') (show_int (month d)) @
     ''-'' @ rjust 2 (CHR ''0'') (show_int (day d))"

text \<open>
  \<open>datetime.datetime.strptime(text, "%Y-%m-%d").date()\<close> on ASCII text, after the
  standard library's parser: a year of four digits, a month \<open>1\<close> to \<open>12\<close> and a day
  \<open>1\<close> to \<open>31\<close> of one or two digits (the day may be padded with a blank), separated by
  \<open>-\<close>, with nothing before or after; the date must exist. \<open>None\<close> stands for the
  \<open>ValueError\<close> raised otherwise.
\<close>

fun split_on :: "char \<Rightarrow> string \<Rightarrow> string list" where
  "split_on sep [] = [[]]"
| "split_on sep (c # cs) =
     (if c = sep then [] # split_on sep cs
      else (case split_on sep cs of [] \<Rightarrow> [[c]] | w # ws \<Rightarrow> (c # w) # ws))"

definition is_digit :: "char \<Rightarrow> bool" where
  "is_digit c \<longleftrightarrow> c \<in> set ''0123456789''"

definition digit_value :: "char \<Rightarrow> int" where
  "digit_value c = int (length (takeWhile (\<lambda>d. d \<noteq> c) ''0123456789''))"

definition number :: "string \<Rightarrow> int" where
  "number s = fold (\<lambda>c n. 10 * n + digit_value c) (filter is_digit s) 0"

definition year_field :: "string \<Rightarrow> bool" where
  "year_field s \<longleftrightarrow> length s = 4 \<and> list_all is_digit s"

definition month_field :: "string \<Rightarrow> bool" where
  "month_field s \<longleftrightarrow>
     (case s of
        [a] \<Rightarrow> a \<in> set ''123456789''
      | [a, b] \<Rightarrow> (a = CHR ''1'' \<and> b \<in> set ''012'') \<or> (a = CHR ''0'' \<and> b \<in> set ''123456789'')
      | _ \<Rightarrow> False)"

definition day_field :: "string \<Rightarrow> bool" where
  "day_field s \<longleftrightarrow>
     (case s of
        [a] \<Rightarrow> a \<in> set ''123456789''
      | [a, b] \<Rightarrow>
          (a = CHR ''3'' \<and> b \<in> set ''01'') \<or> (a \<in> set ''12'' \<and> is_digit b) \<or>
          (a \<in> set ''0 '' \<and> b \<in> set ''123456789'')
      | _ \<Rightarrow> False)"

definition strptime_ymd :: "string \<Rightarrow> date option" where
  "strptime_ymd s =
     (case split_on (CHR ''-'') s of
        [y, m, d] \<Rightarrow>
          (if year_field y \<and> month_field m \<and> day_field d \<and> 1 \<le> number y \<and>
              number d \<le> days_in_month (number y) (number m)
           then Some \<lparr>year = number y, month = number m, day = number d\<rparr>
           else None)
      | _ \<Rightarrow> None)"

subsection \<open>\<open>DateRule\<close>\<close>

record DateRule =
  today :: date
  start_elem :: "element option"
  start_date :: "date option"
  end_elem :: "element option"
  end_date :: "date option"
  rule_error_log :: "ErrorLogEntry list"

text \<open>\<open>DateRule.__init__\<close>; the current date is an argument.\<close>

definition DateRule_init :: "date \<Rightarrow> DateRule" where
  "DateRule_init now =
     \<lparr>today = now, start_elem = None, start_date = None, end_elem = None, end_date = None,
      rule_error_log = []\<rparr>"

definition reset_instance_vars :: "DateRule \<Rightarrow> DateRule" where
  "reset_instance_vars self =
     self\<lparr>start_elem := None, start_date := None, end_elem := None, end_date := None,
          rule_error_log := []\<rparr>"

text \<open>
  The \<open>try\<close> block of \<open>gather_dates\<close> for one field that is present: the parsed date, or
  the entry appended to the local log when the parser raised \<open>ValueError\<close>. The parser is
  an argument. An element without text has \<open>text = None\<close>, and \<open>strptime(None, ...)\<close>
  raises \<open>TypeError\<close>, which the \<open>except ValueError\<close> clause does not catch.
\<close>

definition read_date ::
  "(string \<Rightarrow> date option) \<Rightarrow> element \<Rightarrow> string \<Rightarrow>
     py_exception + (date option \<times> ErrorLogEntry list)" where
  "read_date strptime elem msg =
     (case text_of elem of
        None \<Rightarrow> Inl TypeError
      | Some t \<Rightarrow>
          (case strptime t of
             Some d \<Rightarrow> Inr (Some d, [])
           | None \<Rightarrow> Inr (None, [\<lparr>line = sourceline elem, message = msg\<rparr>])))"

definition gather_dates ::
  "(string \<Rightarrow> date option) \<Rightarrow> DateRule \<Rightarrow> element \<Rightarrow> py_exception option \<times> DateRule" where
  "gather_dates strptime self element =
     (let self1 = self\<lparr>start_elem := find_child element ''StartDate''\<rparr> in
      case (case start_elem self1 of
              None \<Rightarrow> Inr (None, [])
            | Some el \<Rightarrow>
                read_date strptime el ''The StartDate text should be of the format yyyy-mm-dd'') of
        Inl e \<Rightarrow> (Some e, self1)
      | Inr (parsed_start, log1) \<Rightarrow>
          (let self2 = (case parsed_start of
                          Some d \<Rightarrow> self1\<lparr>start_date := Some d\<rparr>
                        | None \<Rightarrow> self1);
               self3 = self2\<lparr>end_elem := find_child element ''EndDate''\<rparr>
           in
           case (case end_elem self3 of
                   None \<Rightarrow> Inr (None, [])
                 | Some el \<Rightarrow>
                     read_date strptime el ''The EndDate text should be of the format yyyy-mm-dd'') of
             Inl e \<Rightarrow> (Some e, self3)
           | Inr (parsed_end, log2) \<Rightarrow>
               (let self4 = (case parsed_end of
                               Some d \<Rightarrow> self3\<lparr>end_date := Some d\<rparr>
                             | None \<Rightarrow> self3);
                    local_log = log1 @ log2
                in
                if local_log \<noteq> [] then
                  (Some (election_error ''The format for the election dates are invalid: ''
                           local_log), self4)
                else (None, self4))))"

text \<open>
  \<open>check_for_date_not_in_past\<close>. Subtracting from \<open>None\<close> raises \<open>TypeError\<close>;
  \<open>date_elem.sourceline\<close> raises \<open>AttributeError\<close> when \<open>date_elem\<close> is
  \<open>None\<close>.
\<close>

definition check_for_date_not_in_past ::
  "DateRule \<Rightarrow> date option \<Rightarrow> element option \<Rightarrow> py_exception option \<times> DateRule" where
  "check_for_date_not_in_past self d date_elem =
     (case d of
        None \<Rightarrow> (Some TypeError, self)
      | Some d' \<Rightarrow>
          (let delta = days_between d' (today self) in
           if delta < 0 then
             (case date_elem of
                None \<Rightarrow> (Some AttributeError, self)
              | Some el \<Rightarrow>
                  (None,
                   self\<lparr>rule_error_log := rule_error_log self @
                     [\<lparr>line = sourceline el,
                       message = ''The date '' @ isoformat d' @ '' is in the past.''\<rparr>]\<rparr>))
           else (None, self)))"

definition end_after_start_message :: "date \<Rightarrow> date \<Rightarrow> string" where
  "end_after_start_message s e =
     ''The dates (start: '' @ isoformat s @ '', end: '' @ isoformat e @ '') are invalid.'' @
     [CHR 0x0A] @ ''      The end date must be the same or after the start date.''"

text \<open>
  \<open>check_end_after_start\<close>. Subtracting with \<open>None\<close> on either side raises
  \<open>TypeError\<close>; \<open>self.end_elem.sourceline\<close> raises \<open>AttributeError\<close> when
  \<open>end_elem\<close> is \<open>None\<close>.
\<close>

definition check_end_after_start :: "DateRule \<Rightarrow> py_exception option \<times> DateRule" where
  "check_end_after_start self =
     (case (end_date self, start_date self) of
        (Some e, Some s) \<Rightarrow>
          (let start_end_delta = days_between e s in
           if start_end_delta < 0 then
             (case end_elem self of
                None \<Rightarrow> (Some AttributeError, self)
              | Some el \<Rightarrow>
                  (None,
                   self\<lparr>rule_error_log := rule_error_log self @
                     [\<lparr>line = sourceline el, message = end_after_start_message s e\<rparr>]\<rparr>))
           else (None, self))
      | _ \<Rightarrow> (Some TypeError, self))"

subsection \<open>Sequencing\<close>

text \<open>
  A statement that may raise returns the exception (or \<open>None\<close>) and the state reached.
  \<open>then_do\<close> runs the next statement only after a normal completion; \<open>for_each\<close> is
  a \<open>for\<close> loop whose body may raise, which ends the loop.
\<close>

definition then_do ::
  "py_exception option \<times> 's \<Rightarrow> ('s \<Rightarrow> py_exception option \<times> 's) \<Rightarrow> py_exception option \<times> 's" where
  "then_do r f = (case r of (None, s) \<Rightarrow> f s | (Some e, s) \<Rightarrow> (Some e, s))"

fun for_each ::
  "'a list \<Rightarrow> ('a \<Rightarrow> 's \<Rightarrow> py_exception option \<times> 's) \<Rightarrow> 's \<Rightarrow> py_exception option \<times> 's" where
  "for_each [] body s = (None, s)"
| "for_each (x # xs) body s = then_do (body x s) (for_each xs body)"

subsection \<open>\<open>RulesRegistry\<close>\<close>

text \<open>
  A file as \<open>etree.parse\<close> sees it: it parses to a tree, or the parser raises an
  \<open>LxmlError\<close> with a message.
\<close>

datatype xml_file = Parses element | Fails string

text \<open>
  The calls made into rule code, in order: kept next to the registry so that which rule
  code ran, and on what, can be stated. A rule instance is named by its position in
  \<open>instances\<close>, the list of the rule objects the registry holds; the dispatch table
  \<open>registry\<close> refers to them by position, so that an instance registered under two keys
  is one object.
\<close>

datatype call = Instantiated string | SetUp nat | Checked nat "element option"

record RulesRegistry =
  election_file :: xml_file
  schema_file :: xml_file
  rule_classes_to_check :: "rule_class list"
  rule_options :: "string \<rightharpoonup> RuleOption list"
  registry :: "string \<rightharpoonup> nat list"
  exceptions :: "severity \<Rightarrow> (class_key \<times> ElectionException list) list"
  exception_counts :: "severity \<Rightarrow> int"
  exception_rule_counts :: "severity \<Rightarrow> (class_key \<times> int) list"
  total_count :: int
  election_tree :: "element option"
  schema_tree :: "element option"
  instances :: "rule_instance list"
  calls :: "call list"
  stdout :: "string list"

definition SEVERITIES :: "severity list" where
  "SEVERITIES = [ElectionInfo, ElectionWarning, ElectionError]"

definition RulesRegistry_init ::
  "xml_file \<Rightarrow> xml_file \<Rightarrow> rule_class list \<Rightarrow> (string \<rightharpoonup> RuleOption list) \<Rightarrow> RulesRegistry" where
  "RulesRegistry_init efile sfile classes options =
     \<lparr>election_file = efile, schema_file = sfile,
      rule_classes_to_check = classes, rule_options = options,
      registry = Map.empty,
      exceptions = (\<lambda>e_type. []),
      exception_counts = (\<lambda>e_type. 0),
      exception_rule_counts = (\<lambda>e_type. []),
      total_count = 0,
      election_tree = None, schema_tree = None,
      instances = [], calls = [], stdout = []\<rparr>"

definition tree_val :: "element option \<Rightarrow> pyval" where
  "tree_val t = (case t of None \<Rightarrow> PyNone | Some el \<Rightarrow> PyTree el)"

text \<open>
  \<open>self.registry[element].append(rule_instance)\<close> when the key is there,
  \<open>self.registry[element] = [rule_instance]\<close> when it is not; \<open>i\<close> is the
  position of the instance.
\<close>

definition add_to_registry :: "nat \<Rightarrow> string \<Rightarrow> RulesRegistry \<Rightarrow> RulesRegistry" where
  "add_to_registry i element self =
     self\<lparr>registry := (registry self)(element \<mapsto>
       (case registry self element of Some rules \<Rightarrow> rules @ [i] | None \<Rightarrow> [i]))\<rparr>"

text \<open>
  Calling a method on an instance looks the name up in the instance dictionary first. A
  value stored there (by an earlier \<open>set_option\<close>, say) hides the method of the class,
  and calling it raises \<open>TypeError\<close>, as the values of the model are not callable.
  \<open>apply_option\<close> is \<open>rule_instance.set_option(option)\<close> under that rule.
\<close>

definition apply_option :: "RuleOption \<Rightarrow> rule_instance \<Rightarrow> py_exception option \<times> rule_instance" where
  "apply_option option rule_instance =
     (if rule_dict rule_instance ''set_option'' \<noteq> None then (Some TypeError, rule_instance)
      else set_option rule_instance option)"

text \<open>
  The body of the loop of \<open>register_rules\<close>, for one rule class: instantiate, apply the
  options filed under the class name, \<open>setup\<close>, then add the instance under every key
  of \<open>set(rule_instance.elements())\<close>. Nothing is caught here.
\<close>

definition register_rule :: "rule_class \<Rightarrow> RulesRegistry \<Rightarrow> py_exception option \<times> RulesRegistry" where
  "register_rule rule self =
     (let i = length (instances self);
          self1 = self\<lparr>calls := calls self @ [Instantiated (rc_name rule)]\<rparr>
      in
      case rc_init rule (tree_val (election_tree self)) (tree_val (schema_tree self)) of
        Inl e \<Rightarrow> (Some e, self1)
      | Inr d \<Rightarrow>
          (case for_each
                  (case rule_options self (rc_name rule) of None \<Rightarrow> [] | Some opts \<Rightarrow> opts)
                  apply_option \<lparr>rule_cls = rule, rule_dict = d\<rparr> of
             (Some e, rule_instance) \<Rightarrow> (Some e, self1)
           | (None, rule_instance) \<Rightarrow>
               (if rule_dict rule_instance ''setup'' \<noteq> None then (Some TypeError, self1)
                else
                  (let self2 = self1\<lparr>calls := calls self1 @ [SetUp i]\<rparr> in
                   case rc_setup rule (rule_dict rule_instance) of
                     (Some e, d') \<Rightarrow> (Some e, self2)
                   | (None, d') \<Rightarrow>
                       (if d' ''elements'' \<noteq> None then (Some TypeError, self2)
                        else
                          (case rc_elements rule d' of
                             Inl e \<Rightarrow> (Some e, self2)
                           | Inr els \<Rightarrow>
                               (None,
                                fold (add_to_registry i) (remdups els)
                                  (self2\<lparr>instances :=
                                     instances self2 @ [rule_instance\<lparr>rule_dict := d'\<rparr>]\<rparr>))))))))"

definition register_rules :: "RulesRegistry \<Rightarrow> py_exception option \<times> RulesRegistry" where
  "register_rules self = for_each (rule_classes_to_check self) register_rule self"

text \<open>
  \<open>exception_handler\<close>, the body of its loop for one severity class. The two
  dictionaries of the severity, keyed by \<open>rule.__class__\<close>, are association lists in
  insertion order; reading a key that is not there is a \<open>KeyError\<close>.
\<close>

definition handle_severity ::
  "class_key \<Rightarrow> ElectionException \<Rightarrow> severity \<Rightarrow> RulesRegistry \<Rightarrow> py_exception option \<times> RulesRegistry" where
  "handle_severity rule_class exception e_type self =
     (if e_type \<in> severities exception then
        (let self1 =
               (if map_of (exceptions self e_type) rule_class = None then
                  self\<lparr>exceptions := (exceptions self)
                         (e_type := AList.update rule_class [] (exceptions self e_type)),
                       exception_rule_counts := (exception_rule_counts self)
                         (e_type := AList.update rule_class 0 (exception_rule_counts self e_type))\<rparr>
                else self)
         in
         case map_of (exceptions self1 e_type) rule_class of
           None \<Rightarrow> (Some KeyError, self1)
         | Some raised \<Rightarrow>
             (let self2 = self1\<lparr>exceptions := (exceptions self1)
                            (e_type := AList.update rule_class (raised @ [exception])
                                         (exceptions self1 e_type))\<rparr>;
                  error_count =
                    (if error_log exception \<noteq> [] then int (length (error_log exception)) else 1);
                  self3 = self2\<lparr>exception_counts := (exception_counts self2)
                            (e_type := exception_counts self2 e_type + error_count)\<rparr>
              in
              case map_of (exception_rule_counts self3 e_type) rule_class of
                None \<Rightarrow> (Some KeyError, self3)
              | Some n \<Rightarrow>
                  (None,
                   self3\<lparr>exception_rule_counts := (exception_rule_counts self3)
                           (e_type := AList.update rule_class (n + error_count)
                                        (exception_rule_counts self3 e_type)),
                         total_count := total_count self3 + error_count\<rparr>)))
      else (None, self))"

definition exception_handler ::
  "rule_instance \<Rightarrow> ElectionException \<Rightarrow> RulesRegistry \<Rightarrow> py_exception option \<times> RulesRegistry" where
  "exception_handler rule exception self =
     for_each SEVERITIES (handle_severity (class_key (rule_cls rule)) exception) self"

text \<open>
  One pass of a dispatch loop of \<open>check_rules\<close>: call \<open>check\<close> on the instance at
  position \<open>i\<close>, hand an \<open>ElectionException\<close> to \<open>exception_handler\<close>, let anything
  else escape. When the instance dictionary holds a value under \<open>check\<close>, the call
  raises \<open>TypeError\<close> and no rule code runs. The positions filed by
  \<open>register_rules\<close> are positions of \<open>instances\<close> (\<open>registry_bound\<close> below).
\<close>

definition check_rule :: "element option \<Rightarrow> nat \<Rightarrow> RulesRegistry \<Rightarrow> py_exception option \<times> RulesRegistry" where
  "check_rule element i self =
     (let rule = instances self ! i in
      if rule_dict rule ''check'' \<noteq> None then (Some TypeError, self)
      else
        (let outcome = rc_check (rule_cls rule) (rule_dict rule) element;
             rule' = rule\<lparr>rule_dict := snd outcome\<rparr>;
             self1 = self\<lparr>instances := (instances self)[i := rule'],
                          calls := calls self @ [Checked i element]\<rparr>
         in
         case fst outcome of
           None \<Rightarrow> (None, self1)
         | Some (Election e) \<Rightarrow> exception_handler rule' e self1
         | Some other \<Rightarrow> (Some other, self1)))"

text \<open>The body of the walk over the document, for one element.\<close>

definition dispatch_element :: "element \<Rightarrow> RulesRegistry \<Rightarrow> py_exception option \<times> RulesRegistry" where
  "dispatch_element element self =
     (case get_element_class (Some element) of
        None \<Rightarrow> (None, self)
      | Some t \<Rightarrow>
          (if t = [] then (None, self)
           else case registry self t of
                  None \<Rightarrow> (None, self)
                | Some rules \<Rightarrow> for_each rules (check_rule (Some element)) self))"

definition fatal_error :: "string \<Rightarrow> RulesRegistry \<Rightarrow> RulesRegistry" where
  "fatal_error e self =
     self\<lparr>stdout := stdout self @ [''Fatal Error. XML file could not be parsed. '' @ e],
          exception_counts := (exception_counts self)
            (ElectionError := exception_counts self ElectionError + 1),
          total_count := total_count self + 1\<rparr>"

text \<open>
  \<open>check_rules\<close>. The schema is parsed first; the walk is over the tree parsed from the
  election file, which nothing in between assigns.
\<close>

definition check_rules :: "RulesRegistry \<Rightarrow> py_exception option \<times> RulesRegistry" where
  "check_rules self =
     (case schema_file self of
        Fails e \<Rightarrow> (None, fatal_error e self)
      | Parses st \<Rightarrow>
          (let self1 = self\<lparr>schema_tree := Some st\<rparr> in
           case election_file self1 of
             Fails e \<Rightarrow> (None, fatal_error e self1)
           | Parses et \<Rightarrow>
               then_do (register_rules (self1\<lparr>election_tree := Some et\<rparr>)) (\<lambda>self2.
               then_do (for_each (case registry self2 ''tree'' of None \<Rightarrow> [] | Some rules \<Rightarrow> rules)
                          (check_rule None) self2) (\<lambda>self3.
               for_each (iterwalk et) dispatch_element self3))))"

subsection \<open>\<open>print_exceptions\<close>\<close>

text \<open>
  Modelled from the spec: the class attribute \<open>description\<close> of the three severity
  classes is defined in \<open>loggers\<close>, which is not part of the sources; the names the spec
  gives the severities stand for it. The text of an exception, \<open>str(exception)\<close>, is
  defined there as well and is an argument (\<open>exc_str\<close>) of the functions below.
\<close>

fun description :: "severity \<Rightarrow> string" where
  "description ElectionInfo = ''Info''"
| "description ElectionWarning = ''Warning''"
| "description ElectionError = ''Error''"

text \<open>\<open>xs[i:]\<close>, where a negative \<open>i\<close> counts from the end.\<close>

definition slice_from :: "int \<Rightarrow> 'a list \<Rightarrow> 'a list" where
  "slice_from i xs =
     (if i < 0 then drop (nat (int (length xs) + i)) xs else drop (nat i) xs)"

definition clean_run_message :: string where
  "clean_run_message = ''Validation completed with no warnings/errors.''"

text \<open>The lines printed for one exception when \<open>verbose\<close> is set.\<close>

definition print_exception :: "(ElectionException \<Rightarrow> string) \<Rightarrow> ElectionException \<Rightarrow> string list" where
  "print_exception exc_str exception =
     (if error_log exception = [] then [replicate 14 (CHR '' '') @ exc_str exception]
      else map (\<lambda>error.
                  case line error of
                    Some l \<Rightarrow>
                      replicate 14 (CHR '' '') @ ''Line '' @ show_int l @ '': '' @ message error
                  | None \<Rightarrow> replicate 14 (CHR '' '') @ message error)
             (error_log exception))"

text \<open>The lines printed for one rule class of a severity.\<close>

definition print_rule_class ::
  "(ElectionException \<Rightarrow> string) \<Rightarrow> bool \<Rightarrow> string \<Rightarrow>
     class_key \<times> int \<times> ElectionException list \<Rightarrow> string list" where
  "print_rule_class exc_str verbose e_type_name entry =
     (case entry of
        (rule_class, rule_count, raised) \<Rightarrow>
          [rjust 10 (CHR '' '') (show_int rule_count) @ '' '' @ snd rule_class @ '' '' @
             e_type_name @ '' message'' @ (if rule_count > 1 then ''s'' else [])] @
          (if verbose then concat (map (print_exception exc_str) raised) else []))"

text \<open>
  The rule classes of a severity with their counts and exceptions, in the order of the
  keys of \<open>self.exceptions[e_type]\<close>; \<open>None\<close> when a class has no entry in
  \<open>self.exception_rule_counts[e_type]\<close>, which is a \<open>KeyError\<close> in the key function of
  \<open>sorted\<close>.
\<close>

definition counted_classes ::
  "RulesRegistry \<Rightarrow> severity \<Rightarrow> (class_key \<times> int \<times> ElectionException list) list option" where
  "counted_classes self e_type =
     those (map (\<lambda>(rule_class, raised).
                   map_option (\<lambda>n. (rule_class, n, raised))
                     (map_of (exception_rule_counts self e_type) rule_class))
              (exceptions self e_type))"

text \<open>
  The body of the loop over the severities. \<open>sorted(..., reverse=True)\<close> is stable, as is
  \<open>sort_key\<close> on the negated count.
\<close>

definition print_severity ::
  "(ElectionException \<Rightarrow> string) \<Rightarrow> bool \<Rightarrow> severity \<Rightarrow> RulesRegistry \<Rightarrow>
     py_exception option \<times> RulesRegistry" where
  "print_severity exc_str verbose e_type self =
     (if exception_counts self e_type = 0 then (None, self)
      else
        (let suffix = (if exception_counts self e_type > 1 then ''s'' else []);
             e_type_name = description e_type;
             self1 = self\<lparr>stdout := stdout self @
               [rjust 6 (CHR '' '') (show_int (exception_counts self e_type)) @ '' '' @
                  e_type_name @ '' message'' @ suffix @ '' found'']\<rparr>
         in
         case counted_classes self e_type of
           None \<Rightarrow> (Some KeyError, self1)
         | Some classes \<Rightarrow>
             (None,
              self1\<lparr>stdout := stdout self1 @
                concat (map (print_rule_class exc_str verbose e_type_name)
                          (sort_key (\<lambda>(rule_class, n, raised). - n) classes))\<rparr>)))"

definition print_exceptions ::
  "(ElectionException \<Rightarrow> string) \<Rightarrow> RulesRegistry \<Rightarrow> int option \<Rightarrow> bool \<Rightarrow>
     py_exception option \<times> RulesRegistry" where
  "print_exceptions exc_str self severity verbose =
     (let severity1 =
            (case severity of
               None \<Rightarrow> 0
             | Some n \<Rightarrow>
                 (if n = 0 then 0
                  else if n > int (length SEVERITIES) then int (length SEVERITIES) - 1
                  else n));
          exception_types = slice_from severity1 SEVERITIES
      in
      if total_count self = 0 then (None, self\<lparr>stdout := stdout self @ [clean_run_message]\<rparr>)
      else for_each (rev exception_types) (print_severity exc_str verbose) self)"

text \<open>The position of a severity in \<open>_SEVERITIES\<close>, which \<open>min_severity\<close> refers to.\<close>

fun rank :: "severity \<Rightarrow> int" where
  "rank ElectionInfo = 0"
| "rank ElectionWarning = 1"
| "rank ElectionError = 2"

subsection \<open>Quantities and predicates of the properties\<close>

text \<open>The sums of the counters kept by \<open>exception_handler\<close>.\<close>

definition severity_total :: "RulesRegistry \<Rightarrow> int" where
  "severity_total self = sum_list (map (exception_counts self) SEVERITIES)"

definition rule_class_total :: "RulesRegistry \<Rightarrow> int" where
  "rule_class_total self =
     sum_list (map (\<lambda>e_type. sum_list (map snd (exception_rule_counts self e_type))) SEVERITIES)"

text \<open>
  The two dictionaries kept per severity have the same keys; the three quantities agree.
\<close>

definition in_sync :: "RulesRegistry \<Rightarrow> bool" where
  "in_sync self \<longleftrightarrow>
     (\<forall>e_type rule_class.
        (map_of (exceptions self e_type) rule_class = None) =
        (map_of (exception_rule_counts self e_type) rule_class = None))"

definition counts_consistent :: "RulesRegistry \<Rightarrow> bool" where
  "counts_consistent self \<longleftrightarrow>
     in_sync self \<and> total_count self = severity_total self \<and>
     total_count self = rule_class_total self"

text \<open>Every position filed in the dispatch table is below \<open>n\<close>.\<close>

definition registry_bound :: "nat \<Rightarrow> RulesRegistry \<Rightarrow> bool" where
  "registry_bound n self \<longleftrightarrow>
     (\<forall>key rules. registry self key = Some rules \<longrightarrow> (\<forall>i \<in> set rules. i < n))"

text \<open>
  The checks of a run, given the dispatch table, as pairs of the position of a rule
  instance and what its \<open>check\<close> is called on: each rule filed under \<open>"tree"\<close>
  once, without an element; then, for every element in the order of the walk whose
  resolved class is not the empty string, each rule filed under that class, on the
  element. (Rules filed under \<open>"tree"\<close> are thus checked again on an element that
  resolves to \<open>"tree"\<close>, and rules filed under the empty string never.)
\<close>

definition checks_on :: "(string \<rightharpoonup> nat list) \<Rightarrow> element \<Rightarrow> (nat \<times> element option) list" where
  "checks_on table el =
     (case get_element_class (Some el) of
        None \<Rightarrow> []
      | Some t \<Rightarrow>
          (if t = [] then []
           else case table t of None \<Rightarrow> [] | Some rules \<Rightarrow> map (\<lambda>i. (i, Some el)) rules))"

definition dispatch_plan :: "(string \<rightharpoonup> nat list) \<Rightarrow> element \<Rightarrow> (nat \<times> element option) list" where
  "dispatch_plan table tree =
     map (\<lambda>i. (i, None)) (case table ''tree'' of None \<Rightarrow> [] | Some rules \<Rightarrow> rules) @
     concat (map (checks_on table) (iterwalk tree))"

text \<open>
  What making a list of checks in order amounts to, told without the registry: each check
  applies the \<open>check\<close> of the instance's class to what the instance holds and to the
  element, and the instance then holds what that call left; a validation failure raised
  is noted, with the class of the rule, and the next check follows; any other exception
  (also the \<open>TypeError\<close> of a \<open>check\<close> hidden by a value of the instance) ends the
  list. The result is the exception that ended the list, if any, the instances at the
  end, and the validation failures noted, in order.
\<close>

fun replay ::
  "(nat \<times> element option) list \<Rightarrow> rule_instance list \<Rightarrow>
     py_exception option \<times> rule_instance list \<times> (class_key \<times> ElectionException) list" where
  "replay [] insts = (None, insts, [])"
| "replay ((i, el) # plan) insts =
     (if rule_dict (insts ! i) ''check'' \<noteq> None then (Some TypeError, insts, [])
      else
        (case rc_check (rule_cls (insts ! i)) (rule_dict (insts ! i)) el of
           (None, d) \<Rightarrow> replay plan (insts[i := (insts ! i)\<lparr>rule_dict := d\<rparr>])
         | (Some (Election e), d) \<Rightarrow>
             (case replay plan (insts[i := (insts ! i)\<lparr>rule_dict := d\<rparr>]) of
                (stopped, final, failures) \<Rightarrow>
                  (stopped, final, (class_key (rule_cls (insts ! i)), e) # failures))
         | (Some other, d) \<Rightarrow> (Some other, insts[i := (insts ! i)\<lparr>rule_dict := d\<rparr>], [])))"

text \<open>
  What the counters are to hold once a list of validation failures has been captured. A
  failure counts for the number of entries of its error log, or for one when the log is
  empty, under every severity class its class derives from. \<open>tally\<close> is the count of a
  severity, \<open>captured\<close> the failures filed under a severity and a rule class, in order.
\<close>

definition weight :: "ElectionException \<Rightarrow> int" where
  "weight e = (if error_log e = [] then 1 else int (length (error_log e)))"

definition tally :: "severity \<Rightarrow> (class_key \<times> ElectionException) list \<Rightarrow> int" where
  "tally t failures =
     sum_list (map (\<lambda>f. weight (snd f)) (filter (\<lambda>f. t \<in> severities (snd f)) failures))"

definition captured ::
  "severity \<Rightarrow> class_key \<Rightarrow> (class_key \<times> ElectionException) list \<Rightarrow> ElectionException list" where
  "captured t k failures =
     map snd (filter (\<lambda>f. fst f = k \<and> t \<in> severities (snd f)) failures)"

definition tallied_at :: "severity \<Rightarrow> (class_key \<times> ElectionException) list \<Rightarrow> RulesRegistry \<Rightarrow> bool" where
  "tallied_at t failures self \<longleftrightarrow>
     exception_counts self t = tally t failures \<and>
     (\<forall>k. map_of (exceptions self t) k =
            (if captured t k failures = [] then None else Some (captured t k failures))) \<and>
     (\<forall>k. map_of (exception_rule_counts self t) k =
            (if captured t k failures = [] then None
             else Some (sum_list (map weight (captured t k failures)))))"

definition tallied :: "(class_key \<times> ElectionException) list \<Rightarrow> RulesRegistry \<Rightarrow> bool" where
  "tallied failures self \<longleftrightarrow>
     (\<forall>t. tallied_at t failures self) \<and>
     total_count self = sum_list (map (\<lambda>t. tally t failures) SEVERITIES)"

text \<open>The checks a run is to make after a registration that left \<open>registered\<close>.\<close>

definition expected_checks ::
  "RulesRegistry \<Rightarrow> element \<Rightarrow>
     py_exception option \<times> rule_instance list \<times> (class_key \<times> ElectionException) list" where
  "expected_checks registered tree =
     replay (dispatch_plan (registry registered) tree) (instances registered)"

text \<open>The body of the one loop over such a list that the two dispatch loops amount to.\<close>

definition step :: "nat \<times> element option \<Rightarrow> RulesRegistry \<Rightarrow> py_exception option \<times> RulesRegistry" where
  "step p self = check_rule (snd p) (fst p) self"

fun is_check :: "call \<Rightarrow> bool" where
  "is_check (Checked i el) = True"
| "is_check _ = False"

text \<open>
  What a call has printed, given the registry before and after it. A line of the report
  starts with a blank, a sign or a digit: the counts are right-justified and the
  messages indented.
\<close>

definition printed :: "RulesRegistry \<Rightarrow> RulesRegistry \<Rightarrow> string list" where
  "printed before after = drop (length (stdout before)) (stdout after)"

definition report_line :: "string \<Rightarrow> bool" where
  "report_line l \<longleftrightarrow> l \<noteq> [] \<and> hd l \<in> set '' -0123456789''"

text \<open>
  When the options of a rule are applied in order, up to the first that names no
  attribute of the instance: \<open>set_option\<close> is hidden, for one of these calls, when the
  new instance holds a value under that name already, or when one of the options before
  the first that names no attribute assigns to it.
\<close>

definition hides_set_option :: "rule_instance \<Rightarrow> RuleOption list \<Rightarrow> bool" where
  "hides_set_option inst opts \<longleftrightarrow>
     rule_dict inst ''set_option'' \<noteq> None \<or>
     ''set_option'' \<in>
       set (map option_name (takeWhile (\<lambda>opt. hasattr inst (option_name opt)) opts))"

text \<open>
  What \<open>gather_dates\<close> is to do with one field, in the words of its description: the
  entry logged for a field that is present and does not parse, and the date held
  afterwards (the parsed date; the date held before when the field is absent or does not
  parse). \<open>has_text\<close>: the field, if present, is not an element without text.
\<close>

definition malformed ::
  "(string \<Rightarrow> date option) \<Rightarrow> element option \<Rightarrow> string \<Rightarrow> ErrorLogEntry list" where
  "malformed strptime field msg =
     (case field of
        None \<Rightarrow> []
      | Some el \<Rightarrow>
          (case text_of el of
             None \<Rightarrow> []
           | Some t \<Rightarrow>
               (if strptime t = None then [\<lparr>line = sourceline el, message = msg\<rparr>] else [])))"

definition stored ::
  "(string \<Rightarrow> date option) \<Rightarrow> element option \<Rightarrow> date option \<Rightarrow> date option" where
  "stored strptime field previous =
     (case field of
        None \<Rightarrow> previous
      | Some el \<Rightarrow>
          (case text_of el of
             None \<Rightarrow> previous
           | Some t \<Rightarrow> (case strptime t of None \<Rightarrow> previous | Some d \<Rightarrow> Some d)))"

definition has_text :: "element option \<Rightarrow> bool" where
  "has_text field \<longleftrightarrow> (case field of None \<Rightarrow> True | Some el \<Rightarrow> text_of el \<noteq> None)"

subsection \<open>Invariants of registration\<close>

text \<open>
  \<open>registering\<close>: what the registration loop keeps, relative to the registry \<open>s0\<close>
  it started from. \<open>register_frame\<close>: the inputs registration reads and never writes.
\<close>

definition registering :: "rule_class list \<Rightarrow> RulesRegistry \<Rightarrow> RulesRegistry \<Rightarrow> bool" where
  "registering classes s0 s \<longleftrightarrow>
     exceptions s = exceptions s0 \<and> exception_counts s = exception_counts s0 \<and>
     exception_rule_counts s = exception_rule_counts s0 \<and> total_count s = total_count s0 \<and>
     registry_bound (length (instances s)) s \<and>
     (\<forall>r \<in> set (instances s). rule_cls r \<in> set classes) \<and>
     (\<forall>c \<in> set (calls s). \<not> is_check c)"

definition register_frame :: "RulesRegistry \<Rightarrow> RulesRegistry \<Rightarrow> bool" where
  "register_frame s0 s \<longleftrightarrow>
     election_tree s = election_tree s0 \<and> schema_tree s = schema_tree s0 \<and>
     rule_options s = rule_options s0"

subsection \<open>A small run\<close>

text \<open>
  Two rule classes and a document to run them on. \<open>failing_tree_rule\<close> is a
  \<open>TreeRule\<close> whose \<open>check\<close> always raises an \<open>ElectionError\<close>;
  \<open>contest_rule\<close> is registered under \<open>"Contest"\<close> and finds nothing wrong. The
  document has two contests, the first retyped by the override attribute.
\<close>

definition failing_tree_rule :: rule_class where
  "failing_tree_rule =
     TreeRule\<lparr>rc_id := 2, rc_name := ''FailingTreeRule'',
       rc_check := (\<lambda>d el. (Some (election_error ''tree is wrong'' []), d))\<rparr>"

definition contest_rule :: rule_class where
  "contest_rule =
     BaseRule\<lparr>rc_id := 3, rc_name := ''ContestRule'',
       rc_elements := (\<lambda>d. Inr [''Contest'']),
       rc_check := (\<lambda>d el. (None, d))\<rparr>"

text \<open>
  \<open>counting_rule\<close> is registered under \<open>"Contest"\<close> and counts, in an attribute of its
  instance, the elements it is called on. \<open>empty_key_rule\<close> is registered under the
  empty string and raises an \<open>ElectionWarning\<close> whenever it is called. The document
  \<open>tree_document\<close> has the root tag \<open>tree\<close> and one child whose type override is the
  empty string.
\<close>

definition counting_rule :: rule_class where
  "counting_rule =
     BaseRule\<lparr>rc_id := 4, rc_name := ''CountingRule'',
       rc_elements := (\<lambda>d. Inr [''Contest'']),
       rc_check := (\<lambda>d el.
         (None, d(''seen'' \<mapsto> PyInt (case d ''seen'' of Some (PyInt n) \<Rightarrow> n + 1 | _ \<Rightarrow> 1))))\<rparr>"

definition empty_key_rule :: rule_class where
  "empty_key_rule =
     BaseRule\<lparr>rc_id := 5, rc_name := ''EmptyKeyRule'',
       rc_elements := (\<lambda>d. Inr [[]]),
       rc_check := (\<lambda>d el.
         (Some (Election \<lparr>severities = {ElectionWarning}, error_message = ''called'',
                            error_log = []\<rparr>), d))\<rparr>"

definition untyped_contest :: element where
  "untyped_contest = Element ''Contest'' [(TYPE_ATTRIB, [])] None (Some 2) []"

definition tree_document :: element where
  "tree_document = Element ''tree'' [] None (Some 1) [untyped_contest]"

definition plain_contest :: element where
  "plain_contest = Element ''Contest'' [] None (Some 3) []"

definition report :: element where
  "report =
     Element ''ElectionReport'' [] None (Some 1)
       [Element ''Contest'' [(TYPE_ATTRIB, ''CandidateContest'')] None (Some 2) [],
        plain_contest]"

definition schema :: element where
  "schema = Element ''schema'' [] None (Some 1) []"

definition bad_option :: RuleOption where
  "bad_option = \<lparr>option_name = ''no_such_attribute'', option_value = PyBool True\<rparr>"

text \<open>
  Elections for the date rule: one whose end is before its start, one with only a start
  date, one with no dates, one whose start date does not exist; and a \<open>DateRule\<close>
  instance after \<open>gather_dates\<close> on the first, and after \<open>gather_dates\<close> on the first
  and then, with no reset in between, on the second.
\<close>

definition date_field :: "string \<Rightarrow> string \<Rightarrow> int \<Rightarrow> element" where
  "date_field name t l = Element name [] (Some t) (Some l) []"

definition election_backwards :: element where
  "election_backwards =
     Element ''Election'' [] None (Some 10)
       [date_field ''StartDate'' ''2024-02-01'' 11, date_field ''EndDate'' ''2024-01-01'' 12]"

definition election_open_ended :: element where
  "election_open_ended =
     Element ''Election'' [] None (Some 20) [date_field ''StartDate'' ''2024-03-01'' 21]"

definition election_undated :: element where
  "election_undated = Element ''Election'' [] None (Some 30) []"

definition election_bad_start :: element where
  "election_bad_start =
     Element ''Election'' [] None (Some 40)
       [date_field ''StartDate'' ''2024-02-30'' 41, date_field ''EndDate'' ''2024-03-01'' 42]"

definition new_date_rule :: DateRule where
  "new_date_rule = DateRule_init \<lparr>year = 2024, month = 1, day = 15\<rparr>"

definition gathered_rule :: DateRule where
  "gathered_rule = snd (gather_dates strptime_ymd new_date_rule election_backwards)"

definition stale_rule :: DateRule where
  "stale_rule = snd (gather_dates strptime_ymd gathered_rule election_open_ended)"

text \<open>A registry that has handled one \<open>ElectionInfo\<close> raised by a \<open>contest_rule\<close>.\<close>

definition info_only :: RulesRegistry where
  "info_only =
     snd (exception_handler \<lparr>rule_cls = contest_rule, rule_dict = Map.empty\<rparr>
            \<lparr>severities = {ElectionInfo}, error_message = ''contest has no name'', error_log = []\<rparr>
            (RulesRegistry_init (Parses report) (Parses schema) [contest_rule] Map.empty))"

text \<open>The same with an \<open>ElectionError\<close>.\<close>

definition error_only :: RulesRegistry where
  "error_only =
     snd (exception_handler \<lparr>rule_cls = contest_rule, rule_dict = Map.empty\<rparr>
            \<lparr>severities = {ElectionError}, error_message = ''contest has no name'', error_log = []\<rparr>
            (RulesRegistry_init (Parses report) (Parses schema) [contest_rule] Map.empty))"

section \<open>Properties\<close>

subsection \<open>Loops, counters and the dispatch table\<close>

lemma then_do_simps [simp]:
  "then_do (None, s) f = f s"
  "then_do (Some e, s) f = (Some e, s)"
  by (simp_all add: then_do_def)

lemma for_each_append:
  "for_each (xs @ ys) body s = then_do (for_each xs body s) (for_each ys body)"
proof (induction xs arbitrary: s)
  case Nil
  show ?case by simp
next
  case (Cons x xs)
  show ?case
  proof (cases "body x s")
    case (Pair r s')
    then show ?thesis
      using Cons.IH [of s'] by (cases r) simp_all
  qed
qed

lemma for_each_map:
  "for_each (map f xs) body s = for_each xs (\<lambda>x. body (f x)) s"
proof (induction xs arbitrary: s)
  case Nil
  show ?case by simp
next
  case (Cons x xs)
  show ?case
  proof (cases "body (f x) s")
    case (Pair r s')
    then show ?thesis
      using Cons.IH [of s'] by (cases r) simp_all
  qed
qed

lemma for_each_invariant:
  assumes step: "\<And>x s. x \<in> set xs \<Longrightarrow> P s \<Longrightarrow> P (snd (body x s))"
    and start: "P s"
  shows "P (snd (for_each xs body s))"
  using step start
proof (induction xs arbitrary: s)
  case Nil
  then show ?case by simp
next
  case (Cons x xs)
  have after: "P (snd (body x s))"
    using Cons.prems by simp
  show ?case
  proof (cases "body x s")
    case (Pair r s')
    with after have "P s'" by simp
    with Pair Cons.IH [of s'] Cons.prems(1) show ?thesis
      by (cases r) simp_all
  qed
qed

lemma for_each_normal:
  assumes step: "\<And>x s. x \<in> set xs \<Longrightarrow> P s \<Longrightarrow>
      fst (body x s) = None \<and> P (snd (body x s)) \<and> g (snd (body x s)) = g s @ f x"
    and start: "P s"
  shows "fst (for_each xs body s) = None \<and> P (snd (for_each xs body s)) \<and>
         g (snd (for_each xs body s)) = g s @ concat (map f xs)"
  using step start
proof (induction xs arbitrary: s)
  case Nil
  then show ?case by simp
next
  case (Cons x xs)
  have now: "fst (body x s) = None \<and> P (snd (body x s)) \<and> g (snd (body x s)) = g s @ f x"
    using Cons.prems by simp
  obtain s' where s': "body x s = (None, s')"
    using now by (cases "body x s") simp
  have rest: "fst (for_each xs body s') = None \<and> P (snd (for_each xs body s')) \<and>
         g (snd (for_each xs body s')) = g s' @ concat (map f xs)"
    using Cons.IH [of s'] Cons.prems(1) now s' by simp
  with now s' show ?case
    by simp
qed

text \<open>
  A loop whose body is itself a loop over \<open>f x\<close>, with the same inner body \<open>step\<close>
  throughout, is one loop over the concatenation.
\<close>

lemma for_each_flatten:
  assumes body: "\<And>x s. P s \<Longrightarrow> body x s = for_each (f x) inner s"
    and keeps: "\<And>y s. P s \<Longrightarrow> P (snd (inner y s))"
    and start: "P s"
  shows "for_each xs body s = for_each (concat (map f xs)) inner s"
  using start
proof (induction xs arbitrary: s)
  case Nil
  show ?case by simp
next
  case (Cons x xs)
  have first: "body x s = for_each (f x) inner s"
    using Cons.prems by (rule body)
  have after: "P (snd (for_each (f x) inner s))"
    by (rule for_each_invariant [where P = P]) (simp_all add: keeps Cons.prems)
  show ?case
  proof (cases "for_each (f x) inner s")
    case (Pair r s')
    with after have "P s'" by simp
    then have "for_each xs body s' = for_each (concat (map f xs)) inner s'"
      by (rule Cons.IH)
    with Pair first show ?thesis
      by (cases r) (simp_all add: for_each_append)
  qed
qed

lemma sum_list_update_new:
  "map_of al k = None \<Longrightarrow>
     sum_list (map snd (AList.update k v al)) = sum_list (map snd al) + (v :: int)"
  by (induction al) (auto split: if_splits)

lemma sum_list_update_old:
  "map_of al k = Some c \<Longrightarrow>
     sum_list (map snd (AList.update k v al)) = sum_list (map snd al) - c + (v :: int)"
  by (induction al) (auto split: if_splits)

lemma in_syncD:
  "counts_consistent s \<Longrightarrow>
   (map_of (exceptions s t) k = None) = (map_of (exception_rule_counts s t) k = None)"
  unfolding counts_consistent_def in_sync_def by blast

lemma handle_severity_consistent:
  assumes "counts_consistent self"
  shows "fst (handle_severity rc e t self) = None \<and>
         counts_consistent (snd (handle_severity rc e t self))"
proof (cases "t \<in> severities e")
  case False
  with assms show ?thesis
    by (simp add: handle_severity_def)
next
  case True
  show ?thesis
  proof (cases "map_of (exceptions self t) rc")
    case None
    then have n: "map_of (exception_rule_counts self t) rc = None"
      using in_syncD [OF assms, of t rc] by simp
    show ?thesis
      using assms True None n
      by (cases t)
        (auto simp: handle_severity_def Let_def counts_consistent_def in_sync_def
          severity_total_def rule_class_total_def SEVERITIES_def update_conv'
          sum_list_update_new sum_list_update_old)
  next
    case (Some l)
    have "(map_of (exceptions self t) rc = None) = (map_of (exception_rule_counts self t) rc = None)"
      by (rule in_syncD [OF assms])
    with Some obtain c where c: "map_of (exception_rule_counts self t) rc = Some c"
      by auto
    show ?thesis
      using assms True Some c
      by (cases t)
        (auto simp: handle_severity_def Let_def counts_consistent_def in_sync_def
          severity_total_def rule_class_total_def SEVERITIES_def update_conv'
          sum_list_update_new sum_list_update_old)
  qed
qed

lemma handle_severity_frame:
  "registry (snd (handle_severity rc e t self)) = registry self \<and>
   instances (snd (handle_severity rc e t self)) = instances self \<and>
   calls (snd (handle_severity rc e t self)) = calls self"
  by (simp add: handle_severity_def Let_def split: option.splits)

lemma exception_handler_frame:
  "registry (snd (exception_handler rule e self)) = registry self \<and>
   instances (snd (exception_handler rule e self)) = instances self \<and>
   calls (snd (exception_handler rule e self)) = calls self"
  unfolding exception_handler_def
  by (rule for_each_invariant [where P = "\<lambda>s. registry s = registry self \<and>
        instances s = instances self \<and> calls s = calls self"])
     (simp_all add: handle_severity_frame)

lemma exception_handler_consistent:
  assumes "counts_consistent self"
  shows "fst (exception_handler rule e self) = None \<and>
         counts_consistent (snd (exception_handler rule e self))"
proof -
  have "fst (for_each SEVERITIES (handle_severity (class_key (rule_cls rule)) e) self) = None \<and>
        counts_consistent (snd (for_each SEVERITIES (handle_severity (class_key (rule_cls rule)) e) self)) \<and>
        (\<lambda>s. []) (snd (for_each SEVERITIES (handle_severity (class_key (rule_cls rule)) e) self))
          = (\<lambda>s. []) self @ concat (map (\<lambda>t. ([] :: unit list)) SEVERITIES)"
    by (rule for_each_normal) (simp_all add: handle_severity_consistent assms)
  then show ?thesis
    by (simp add: exception_handler_def)
qed

lemma counts_consistent_cong:
  "exceptions s' = exceptions s \<Longrightarrow> exception_counts s' = exception_counts s \<Longrightarrow>
   exception_rule_counts s' = exception_rule_counts s \<Longrightarrow> total_count s' = total_count s \<Longrightarrow>
   counts_consistent s' = counts_consistent s"
  by (simp add: counts_consistent_def in_sync_def severity_total_def rule_class_total_def)

lemma check_rule_consistent:
  assumes "counts_consistent self"
  shows "counts_consistent (snd (check_rule el i self))"
proof (cases "rule_dict (instances self ! i) ''check'' = None")
  case False
  with assms show ?thesis
    by (auto simp: check_rule_def Let_def)
next
  case callable: True
  let ?rule = "instances self ! i"
  let ?out = "rc_check (rule_cls ?rule) (rule_dict ?rule) el"
  let ?self1 = "self\<lparr>instances := (instances self)[i := ?rule\<lparr>rule_dict := snd ?out\<rparr>],
                       calls := calls self @ [Checked i el]\<rparr>"
  have c1: "counts_consistent ?self1"
    using assms by (simp add: counts_consistent_cong [of ?self1 self])
  show ?thesis
  proof (cases "fst ?out")
    case None
    with c1 callable show ?thesis by (simp add: check_rule_def Let_def)
  next
    case (Some x)
    with c1 callable show ?thesis
      by (cases x) (simp_all add: check_rule_def Let_def exception_handler_consistent)
  qed
qed

lemma then_do_invariant:
  assumes "P (snd r)" and "\<And>s. P s \<Longrightarrow> P (snd (f s))"
  shows "P (snd (then_do r f))"
proof (cases r)
  case (Pair x s)
  with assms show ?thesis
    by (cases x) simp_all
qed

lemma dispatch_element_consistent:
  assumes "counts_consistent self"
  shows "counts_consistent (snd (dispatch_element el self))"
proof -
  have "counts_consistent (snd (for_each rules (check_rule (Some el)) self))" for rules
    by (rule for_each_invariant) (simp_all add: check_rule_consistent assms)
  with assms show ?thesis
    by (simp add: dispatch_element_def split: option.splits)
qed

lemma set_option_cls: "rule_cls (snd (set_option inst opt)) = rule_cls inst"
  by (simp add: set_option_def setattr_def)

lemma apply_option_cls: "rule_cls (snd (apply_option opt inst)) = rule_cls inst"
  by (simp add: apply_option_def set_option_cls)

lemma apply_options_cls:
  "rule_cls (snd (for_each opts apply_option inst)) = rule_cls inst"
  by (rule for_each_invariant [where P = "\<lambda>r. rule_cls r = rule_cls inst"])
     (simp_all add: apply_option_cls)

lemma fold_add_to_registry_frame:
  "instances (fold (add_to_registry i) keys s) = instances s \<and>
   calls (fold (add_to_registry i) keys s) = calls s \<and>
   exceptions (fold (add_to_registry i) keys s) = exceptions s \<and>
   exception_counts (fold (add_to_registry i) keys s) = exception_counts s \<and>
   exception_rule_counts (fold (add_to_registry i) keys s) = exception_rule_counts s \<and>
   total_count (fold (add_to_registry i) keys s) = total_count s"
  by (induction keys arbitrary: s) (simp_all add: add_to_registry_def)

lemma add_to_registry_bound:
  "registry_bound n s \<Longrightarrow> i < n \<Longrightarrow> registry_bound n (add_to_registry i key s)"
  by (auto simp: registry_bound_def add_to_registry_def split: option.splits if_splits)

lemma fold_add_to_registry_bound:
  "registry_bound n s \<Longrightarrow> i < n \<Longrightarrow> registry_bound n (fold (add_to_registry i) keys s)"
  by (induction keys arbitrary: s) (simp_all add: add_to_registry_bound)

lemma registry_bound_mono: "registry_bound n s \<Longrightarrow> n \<le> m \<Longrightarrow> registry_bound m s"
  by (fastforce simp: registry_bound_def)

lemma registry_bound_update [simp]:
  "registry_bound n (s\<lparr>calls := c\<rparr>) = registry_bound n s"
  "registry_bound n (s\<lparr>instances := x\<rparr>) = registry_bound n s"
  by (simp_all add: registry_bound_def)

lemma register_rule_registering:
  assumes "registering classes s0 s" and "rule \<in> set classes"
  shows "registering classes s0 (snd (register_rule rule s))"
proof -
  let ?i = "length (instances s)"
  let ?self1 = "s\<lparr>calls := calls s @ [Instantiated (rc_name rule)]\<rparr>"
  let ?self2 = "?self1\<lparr>calls := calls ?self1 @ [SetUp ?i]\<rparr>"
  have r1: "registering classes s0 ?self1"
    using assms(1) by (simp add: registering_def)
  have r2: "registering classes s0 ?self2"
    using assms(1) by (simp add: registering_def)
  have r3: "registering classes s0
      (fold (add_to_registry ?i) keys (?self2\<lparr>instances := instances ?self2 @ [inst]\<rparr>))"
    if "rule_cls inst = rule" for keys inst
  proof -
    let ?s3 = "?self2\<lparr>instances := instances ?self2 @ [inst]\<rparr>"
    have "registry_bound (Suc ?i) ?s3"
      using assms(1) registry_bound_mono [of ?i s "Suc ?i"]
      by (simp add: registering_def)
    then have "registry_bound (Suc ?i) (fold (add_to_registry ?i) keys ?s3)"
      by (rule fold_add_to_registry_bound) simp
    then show ?thesis
      using assms that by (simp add: registering_def fold_add_to_registry_frame)
  qed
  show ?thesis
  proof (cases "rc_init rule (tree_val (election_tree s)) (tree_val (schema_tree s))")
    case (Inl e)
    with r1 show ?thesis by (simp add: register_rule_def Let_def)
  next
    case (Inr d)
    let ?opts = "case rule_options s (rc_name rule) of None \<Rightarrow> [] | Some opts \<Rightarrow> opts"
    let ?applied = "for_each ?opts apply_option \<lparr>rule_cls = rule, rule_dict = d\<rparr>"
    have cls: "rule_cls (snd ?applied) = rule"
      using apply_options_cls [of ?opts "\<lparr>rule_cls = rule, rule_dict = d\<rparr>"] by simp
    show ?thesis
    proof (cases ?applied)
      case (Pair x inst)
      with cls have inst: "rule_cls inst = rule" by simp
      show ?thesis
      proof (cases "x = None \<and> rule_dict inst ''setup'' = None")
        case False
        with Inr Pair r1 show ?thesis
          by (cases x) (auto simp: register_rule_def Let_def)
      next
        case applied: True
        show ?thesis
        proof (cases "rc_setup rule (rule_dict inst)")
          case (Pair y d')
          show ?thesis
          proof (cases "y = None \<and> d' ''elements'' = None")
            case False
            with Inr \<open>?applied = (x, inst)\<close> applied Pair r2 show ?thesis
              by (cases y) (auto simp: register_rule_def Let_def)
          next
            case set_up: True
            show ?thesis
            proof (cases "rc_elements rule d'")
              case (Inl e)
              with Inr \<open>?applied = (x, inst)\<close> applied Pair set_up r2 show ?thesis
                by (simp add: register_rule_def Let_def)
            next
              case els: (Inr els)
              have "rule_cls (inst\<lparr>rule_dict := d'\<rparr>) = rule"
                using inst by simp
              from r3 [OF this, of "remdups els"]
              show ?thesis
                using Inr \<open>?applied = (x, inst)\<close> applied Pair set_up els
                by (simp add: register_rule_def Let_def)
            qed
          qed
        qed
      qed
    qed
  qed
qed

lemma register_rules_registering:
  assumes "registering (rule_classes_to_check s) s s"
  shows "registering (rule_classes_to_check s) s (snd (register_rules s))"
  unfolding register_rules_def
  by (rule for_each_invariant) (simp_all add: register_rule_registering assms)

lemma start_registering:
  "registering classes
     ((RulesRegistry_init ef sf classes options)\<lparr>schema_tree := a, election_tree := b\<rparr>)
     ((RulesRegistry_init ef sf classes options)\<lparr>schema_tree := a, election_tree := b\<rparr>)"
  by (simp add: registering_def RulesRegistry_init_def registry_bound_def)

lemma start_consistent:
  "counts_consistent
     ((RulesRegistry_init ef sf classes options)\<lparr>schema_tree := a, election_tree := b\<rparr>)"
  by (simp add: counts_consistent_def in_sync_def severity_total_def rule_class_total_def
      RulesRegistry_init_def SEVERITIES_def)

lemma tallied_cong:
  "exceptions s' = exceptions s \<Longrightarrow> exception_counts s' = exception_counts s \<Longrightarrow>
   exception_rule_counts s' = exception_rule_counts s \<Longrightarrow> total_count s' = total_count s \<Longrightarrow>
   tallied F s' = tallied F s"
  by (simp add: tallied_def tallied_at_def)

lemma start_tallied:
  "tallied []
     ((RulesRegistry_init ef sf classes options)\<lparr>schema_tree := a, election_tree := b\<rparr>)"
  by (simp add: tallied_def tallied_at_def tally_def captured_def RulesRegistry_init_def
      SEVERITIES_def)

lemma registered_facts:
  assumes "s = (RulesRegistry_init ef sf classes options)\<lparr>schema_tree := a, election_tree := b\<rparr>"
  shows "counts_consistent (snd (register_rules s))"
    and "registry_bound (length (instances (snd (register_rules s)))) (snd (register_rules s))"
    and "\<forall>r \<in> set (instances (snd (register_rules s))). rule_cls r \<in> set classes"
    and "\<forall>c \<in> set (calls (snd (register_rules s))). \<not> is_check c"
    and "tallied [] (snd (register_rules s))"
proof -
  have cl: "rule_classes_to_check s = classes"
    using assms by (simp add: RulesRegistry_init_def)
  have "registering (rule_classes_to_check s) s s"
    unfolding cl unfolding assms by (rule start_registering)
  then have r: "registering classes s (snd (register_rules s))"
    using register_rules_registering [of s] cl by simp
  have "counts_consistent s"
    unfolding assms by (rule start_consistent)
  with r show "counts_consistent (snd (register_rules s))"
    using counts_consistent_cong [of "snd (register_rules s)" s] by (simp add: registering_def)
  have "tallied [] s"
    unfolding assms by (rule start_tallied)
  with r show "tallied [] (snd (register_rules s))"
    using tallied_cong [of "snd (register_rules s)" s "[]"] by (simp add: registering_def)
  from r show "registry_bound (length (instances (snd (register_rules s)))) (snd (register_rules s))"
    and "\<forall>r \<in> set (instances (snd (register_rules s))). rule_cls r \<in> set classes"
    and "\<forall>c \<in> set (calls (snd (register_rules s))). \<not> is_check c"
    by (simp_all add: registering_def)
qed

lemma set_option_hasattr:
  "hasattr (snd (set_option inst opt)) name = hasattr inst name"
  by (auto simp: set_option_def setattr_def hasattr_def)

lemma apply_options_fails:
  assumes "\<exists>opt \<in> set opts. \<not> hasattr inst (option_name opt)"
  shows "fst (for_each opts apply_option inst) =
           Some (if hides_set_option inst opts then TypeError else invalid_attribute)"
  using assms
proof (induction opts arbitrary: inst)
  case Nil
  then show ?case by simp
next
  case (Cons opt opts)
  show ?case
  proof (cases "rule_dict inst ''set_option'' = None")
    case False
    then show ?thesis
      by (auto simp: apply_option_def hides_set_option_def)
  next
    case callable: True
    show ?thesis
    proof (cases "hasattr inst (option_name opt)")
      case False
      with callable show ?thesis
        by (simp add: apply_option_def set_option_def hides_set_option_def)
    next
      case True
      let ?next = "setattr inst (option_name opt) (option_value opt)"
      have same: "hasattr ?next name = hasattr inst name" for name
        using set_option_hasattr [of inst opt name] True by (simp add: set_option_def)
      have "\<exists>opt \<in> set opts. \<not> hasattr ?next (option_name opt)"
        using Cons.prems True by (auto simp: same)
      then have rest: "fst (for_each opts apply_option ?next) =
          Some (if hides_set_option ?next opts then TypeError else invalid_attribute)"
        by (rule Cons.IH)
      have good: "takeWhile (\<lambda>opt. hasattr ?next (option_name opt)) opts =
          takeWhile (\<lambda>opt. hasattr inst (option_name opt)) opts"
        by (simp add: same)
      have held: "(rule_dict ?next ''set_option'' \<noteq> None) = (option_name opt = ''set_option'')"
        using callable by (simp add: setattr_def)
      have "hides_set_option ?next opts = hides_set_option inst (opt # opts)"
        unfolding hides_set_option_def good held using callable True by auto
      moreover have "apply_option opt inst = (None, ?next)"
        using callable True by (simp add: apply_option_def set_option_def)
      ultimately show ?thesis
        using rest by simp
    qed
  qed
qed

lemma fold_add_to_registry_inputs:
  "election_tree (fold (add_to_registry i) keys s) = election_tree s \<and>
   schema_tree (fold (add_to_registry i) keys s) = schema_tree s \<and>
   rule_options (fold (add_to_registry i) keys s) = rule_options s"
  by (induction keys arbitrary: s) (simp_all add: add_to_registry_def)

lemma register_rule_frame:
  "register_frame s0 s \<Longrightarrow> register_frame s0 (snd (register_rule rule s))"
  by (auto simp: register_frame_def register_rule_def Let_def fold_add_to_registry_inputs
      split: sum.splits prod.splits option.splits)

lemma register_loop_frame:
  "register_frame s (snd (for_each classes register_rule s))"
  by (rule for_each_invariant [where P = "register_frame s"])
     (simp_all add: register_rule_frame, simp add: register_frame_def)

subsection \<open>Dispatch as one list of checks\<close>

lemma tally_append:
  "tally t (F @ [(k, e)]) = tally t F + (if t \<in> severities e then weight e else 0)"
  by (simp add: tally_def)

lemma captured_append:
  "captured t k' (F @ [(k, e)]) =
     captured t k' F @ (if k' = k \<and> t \<in> severities e then [e] else [])"
  by (simp add: captured_def)

lemma handle_severity_other:
  assumes "u \<noteq> t"
  shows "tallied_at u G (snd (handle_severity k e t s)) = tallied_at u G s"
  using assms by (simp add: handle_severity_def Let_def tallied_at_def split: option.splits)

lemma handle_severity_tally:
  assumes "tallied_at t F s"
  shows "fst (handle_severity k e t s) = None \<and>
         tallied_at t (F @ [(k, e)]) (snd (handle_severity k e t s)) \<and>
         total_count (snd (handle_severity k e t s)) =
           total_count s + (if t \<in> severities e then weight e else 0)"
proof (cases "t \<in> severities e")
  case False
  with assms show ?thesis
    by (simp add: handle_severity_def tallied_at_def tally_append captured_append)
next
  case True
  have ex: "map_of (exceptions s t) k = (if captured t k F = [] then None else Some (captured t k F))"
    and rc: "map_of (exception_rule_counts s t) k =
      (if captured t k F = [] then None else Some (sum_list (map weight (captured t k F))))"
    using assms unfolding tallied_at_def by blast+
  show ?thesis
  proof (cases "captured t k F = []")
    case empty: True
    with ex rc True assms show ?thesis
      by (simp add: handle_severity_def Let_def tallied_at_def tally_append captured_append
          update_conv' weight_def)
  next
    case False
    with ex rc True assms show ?thesis
      by (simp add: handle_severity_def Let_def tallied_at_def tally_append captured_append
          update_conv' weight_def)
  qed
qed

lemma handle_loop_tally:
  assumes "distinct ts" and "\<forall>t \<in> set ts. tallied_at t F s"
  shows "fst (for_each ts (handle_severity k e) s) = None \<and>
         (\<forall>t \<in> set ts. tallied_at t (F @ [(k, e)]) (snd (for_each ts (handle_severity k e) s))) \<and>
         (\<forall>u G. u \<notin> set ts \<longrightarrow>
            tallied_at u G (snd (for_each ts (handle_severity k e) s)) = tallied_at u G s) \<and>
         total_count (snd (for_each ts (handle_severity k e) s)) =
           total_count s + sum_list (map (\<lambda>t. tally t (F @ [(k, e)]) - tally t F) ts)"
  using assms
proof (induction ts arbitrary: s)
  case Nil
  show ?case by simp
next
  case (Cons t ts)
  have "tallied_at t F s"
    using Cons.prems by simp
  from handle_severity_tally [OF this, of k e]
  obtain s' where run: "handle_severity k e t s = (None, s')"
    and here: "tallied_at t (F @ [(k, e)]) s'"
    and total: "total_count s' = total_count s + (tally t (F @ [(k, e)]) - tally t F)"
    by (cases "handle_severity k e t s") (simp add: tally_append)
  have other: "tallied_at u G s' = tallied_at u G s" if "u \<noteq> t" for u G
    using handle_severity_other [OF that, of G k e s] run by simp
  have "\<forall>u \<in> set ts. tallied_at u F s'"
  proof
    fix u
    assume "u \<in> set ts"
    with Cons.prems have "u \<noteq> t" and "tallied_at u F s" by auto
    then show "tallied_at u F s'" by (simp add: other)
  qed
  with Cons.prems have rest:
    "fst (for_each ts (handle_severity k e) s') = None \<and>
     (\<forall>t \<in> set ts. tallied_at t (F @ [(k, e)]) (snd (for_each ts (handle_severity k e) s'))) \<and>
     (\<forall>u G. u \<notin> set ts \<longrightarrow>
        tallied_at u G (snd (for_each ts (handle_severity k e) s')) = tallied_at u G s') \<and>
     total_count (snd (for_each ts (handle_severity k e) s')) =
       total_count s' + sum_list (map (\<lambda>t. tally t (F @ [(k, e)]) - tally t F) ts)"
    using Cons.IH [of s'] by simp
  have eq: "for_each (t # ts) (handle_severity k e) s = for_each ts (handle_severity k e) s'"
    using run by simp
  show ?case
    unfolding eq using rest here total other Cons.prems(1) by auto
qed

lemma exception_handler_tally:
  assumes "tallied F s"
  shows "fst (exception_handler rule e s) = None \<and>
         tallied (F @ [(class_key (rule_cls rule), e)]) (snd (exception_handler rule e s))"
proof -
  have all: "t \<in> set SEVERITIES" for t
    by (cases t) (simp_all add: SEVERITIES_def)
  have "distinct SEVERITIES"
    by (simp add: SEVERITIES_def)
  moreover have "\<forall>t \<in> set SEVERITIES. tallied_at t F s"
    using assms by (simp add: tallied_def)
  ultimately show ?thesis
    using handle_loop_tally [of SEVERITIES F s "class_key (rule_cls rule)" e] assms all
    by (simp add: exception_handler_def tallied_def sum_list_subtractf)
qed

lemma step_fun: "step (i, el) = check_rule el i"
  by (rule ext) (simp add: step_def)

lemma step_registry: "registry (snd (step p s)) = registry s"
proof (cases "fst (rc_check (rule_cls (instances s ! fst p)) (rule_dict (instances s ! fst p)) (snd p))")
  case None
  then show ?thesis
    by (simp add: step_def check_rule_def Let_def)
next
  case (Some x)
  then show ?thesis
    by (cases x) (simp_all add: step_def check_rule_def Let_def exception_handler_frame)
qed

lemma dispatch_element_as_checks:
  assumes "registry s = table"
  shows "dispatch_element el s = for_each (checks_on table el) step s"
proof -
  have "for_each rules (check_rule (Some el)) s = for_each (map (\<lambda>i. (i, Some el)) rules) step s"
    for rules
    by (simp add: for_each_map step_fun)
  with assms show ?thesis
    by (simp add: dispatch_element_def checks_on_def split: option.splits)
qed

lemma dispatch_as_plan:
  "then_do (for_each (case registry s ''tree'' of None \<Rightarrow> [] | Some rules \<Rightarrow> rules)
              (check_rule None) s)
           (for_each (iterwalk et) dispatch_element)
   = for_each (dispatch_plan (registry s) et) step s"
proof -
  let ?tree = "case registry s ''tree'' of None \<Rightarrow> [] | Some rules \<Rightarrow> rules"
  let ?first = "for_each (map (\<lambda>i. (i, None)) ?tree) step s"
  have first: "for_each ?tree (check_rule None) s = ?first"
    by (simp add: for_each_map step_fun)
  have kept: "registry (snd ?first) = registry s"
    by (rule for_each_invariant [where P = "\<lambda>r. registry r = registry s"])
       (simp_all add: step_registry)
  have walk: "for_each (iterwalk et) dispatch_element s' =
              for_each (concat (map (checks_on (registry s)) (iterwalk et))) step s'"
    if "registry s' = registry s" for s'
    by (rule for_each_flatten [where P = "\<lambda>r. registry r = registry s"])
       (simp_all add: dispatch_element_as_checks step_registry that)
  show ?thesis
  proof (cases ?first)
    case (Pair r s')
    with kept have "registry s' = registry s" by simp
    from walk [OF this] Pair show ?thesis
      unfolding first dispatch_plan_def for_each_append by (cases r) simp_all
  qed
qed

lemma dispatch_plan_bound:
  assumes "registry_bound n s"
  shows "\<forall>p \<in> set (dispatch_plan (registry s) et). fst p < n"
proof -
  have rules: "i < n" if "registry s key = Some rules" and "i \<in> set rules" for key rules i
    using assms that unfolding registry_bound_def by blast
  have "\<forall>p \<in> set (checks_on (registry s) el). fst p < n" for el
    using rules by (fastforce simp: checks_on_def split: option.splits if_splits)
  moreover have "\<forall>p \<in> set (map (\<lambda>i. (i, None :: element option))
      (case registry s ''tree'' of None \<Rightarrow> [] | Some rules \<Rightarrow> rules)). fst p < n"
    using rules [of "''tree''"] by (cases "registry s ''tree''") auto
  ultimately show ?thesis
    unfolding dispatch_plan_def by auto
qed

lemma for_each_step_Cons:
  "for_each ((i, el) # plan) step s = then_do (check_rule el i s) (for_each plan step)"
  by (simp add: step_def)

lemma flat_replay:
  assumes "tallied F s" and "replay plan (instances s) = (stopped, final, G)"
  shows "fst (for_each plan step s) = stopped \<and>
         instances (snd (for_each plan step s)) = final \<and>
         tallied (F @ G) (snd (for_each plan step s)) \<and>
         (stopped = None \<longrightarrow>
            calls (snd (for_each plan step s)) = calls s @ map (\<lambda>(i, el). Checked i el) plan)"
  using assms
proof (induction plan arbitrary: s F stopped final G)
  case Nil
  then show ?case by simp
next
  case (Cons p plan)
  obtain i el where p: "p = (i, el)" by (cases p)
  let ?rule = "instances s ! i"
  show ?case
  proof (cases "rule_dict ?rule ''check'' = None")
    case False
    with Cons.prems p show ?thesis
      by (auto simp: step_def check_rule_def Let_def)
  next
    case callable: True
    obtain x d where out: "rc_check (rule_cls ?rule) (rule_dict ?rule) el = (x, d)"
      by (cases "rc_check (rule_cls ?rule) (rule_dict ?rule) el")
    let ?rule' = "?rule\<lparr>rule_dict := d\<rparr>"
    let ?s1 = "s\<lparr>instances := (instances s)[i := ?rule'], calls := calls s @ [Checked i el]\<rparr>"
    have t1: "tallied F ?s1"
      using Cons.prems(1) by (simp add: tallied_cong [of ?s1 s])
    show ?thesis
    proof (cases x)
      case None
      have now: "check_rule el i s = (None, ?s1)"
        using callable out None by (simp add: check_rule_def Let_def)
      have "replay plan (instances ?s1) = (stopped, final, G)"
        using Cons.prems(2) p callable out None by simp
      from Cons.IH [OF t1 this] show ?thesis
        unfolding p for_each_step_Cons now by simp
    next
      case (Some exn)
      show ?thesis
      proof (cases "is_election_exception exn")
        case False
        then have "check_rule el i s = (Some exn, ?s1)"
          using callable out Some by (cases exn) (simp_all add: check_rule_def Let_def)
        moreover have "(stopped, final, G) = (Some exn, (instances s)[i := ?rule'], [])"
          using Cons.prems(2) p callable out Some False by (cases exn) simp_all
        ultimately show ?thesis
          unfolding p for_each_step_Cons using t1 by simp
      next
        case True
        then obtain e where e: "exn = Election e" by (cases exn) simp_all
        let ?s2 = "snd (exception_handler ?rule' e ?s1)"
        have handled: "fst (exception_handler ?rule' e ?s1) = None \<and>
            tallied (F @ [(class_key (rule_cls ?rule'), e)]) ?s2"
          using t1 by (rule exception_handler_tally)
        then have now: "check_rule el i s = (None, ?s2)"
          using callable out Some e
          by (cases "exception_handler ?rule' e ?s1") (simp add: check_rule_def Let_def)
        have frame: "instances ?s2 = instances ?s1 \<and> calls ?s2 = calls ?s1"
          by (simp add: exception_handler_frame)
        obtain G' where rest: "replay plan (instances ?s1) = (stopped, final, G')"
          and G: "G = (class_key (rule_cls ?rule), e) # G'"
          using Cons.prems(2) p callable out Some e
          by (cases "replay plan ((instances s)[i := ?rule'])") simp
        have t2: "tallied (F @ [(class_key (rule_cls ?rule), e)]) ?s2"
          using handled by simp
        have "replay plan (instances ?s2) = (stopped, final, G')"
          using rest frame by simp
        from Cons.IH [OF t2 this] frame show ?thesis
          unfolding p for_each_step_Cons now G by simp
      qed
    qed
  qed
qed

lemma replay_stop:
  "replay plan insts = (Some x, final, G) \<Longrightarrow> \<not> is_election_exception x"
proof (induction plan arbitrary: insts G)
  case Nil
  then show ?case by simp
next
  case (Cons p plan)
  obtain i el where p: "p = (i, el)" by (cases p)
  show ?case
  proof (cases "rule_dict (insts ! i) ''check'' = None")
    case False
    with Cons.prems p show ?thesis by auto
  next
    case True
    obtain y d where out: "rc_check (rule_cls (insts ! i)) (rule_dict (insts ! i)) el = (y, d)"
      by (cases "rc_check (rule_cls (insts ! i)) (rule_dict (insts ! i)) el")
    show ?thesis
    proof (cases y)
      case None
      with Cons.prems p True out show ?thesis
        using Cons.IH by simp
    next
      case (Some exn)
      show ?thesis
      proof (cases exn)
        case (Election e)
        with Cons.prems p True out Some show ?thesis
          using Cons.IH [of "insts[i := (insts ! i)\<lparr>rule_dict := d\<rparr>]"]
          by (cases "replay plan (insts[i := (insts ! i)\<lparr>rule_dict := d\<rparr>])") simp
      qed (use Cons.prems p True out Some in auto)
    qed
  qed
qed

subsection \<open>Resolving the class of an element\<close>

text \<open>
  C3. If the element is absent, \<open>get_element_class\<close> returns absent. If the element
  carries the type-override attribute with value \<open>v\<close>, the result is \<open>v\<close>, whatever the
  tag is (so the tag is never what is returned in its place). Without the attribute the
  result is the element's own tag.
\<close>

theorem get_element_class_resolves:
  "get_element_class None = None \<and>
   (map_of (attrib el) TYPE_ATTRIB = Some v \<longrightarrow>
      get_element_class (Some el) = Some v \<and>
      get_element_class
        (Some (Element t (attrib el) (text_of el) (sourceline el) (children el))) = Some v) \<and>
   (map_of (attrib el) TYPE_ATTRIB = None \<longrightarrow> get_element_class (Some el) = Some (tag el))"
  by (simp add: get_element_class_def)

theorem get_element_class_resolves_witness:
  "get_element_class
     (Some (Element ''Contest'' [(TYPE_ATTRIB, ''CandidateContest'')] None (Some 7) []))
     = Some ''CandidateContest'' \<and>
   get_element_class
     (Some (Element ''Ballot'' [(TYPE_ATTRIB, ''CandidateContest'')] None (Some 7) []))
     = Some ''CandidateContest'' \<and>
   get_element_class (Some (Element ''Contest'' [] None (Some 7) [])) = Some ''Contest''"
  using get_element_class_resolves
      [of "Element ''Contest'' [(TYPE_ATTRIB, ''CandidateContest'')] None (Some 7) []"
          "''CandidateContest''" "''Ballot''"]
    get_element_class_resolves [of "Element ''Contest'' [] None (Some 7) []"]
  by simp

subsection \<open>Setting an option\<close>

text \<open>
  C7. \<open>set_option\<close> raises the configuration error exactly when the instance has no
  attribute of the option's name, and then the instance is as it was. When the attribute
  exists, the call returns normally and its only effect is the assignment of the option's
  value to that attribute.
\<close>

theorem set_option_checks_attribute:
  "(fst (set_option self option) = Some invalid_attribute \<longleftrightarrow>
      \<not> hasattr self (option_name option)) \<and>
   (fst (set_option self option) \<noteq> None \<longleftrightarrow> \<not> hasattr self (option_name option)) \<and>
   (\<not> hasattr self (option_name option) \<longrightarrow> snd (set_option self option) = self) \<and>
   (hasattr self (option_name option) \<longrightarrow>
      set_option self option =
        (None, self\<lparr>rule_dict := (rule_dict self)(option_name option \<mapsto> option_value option)\<rparr>))"
  by (simp add: set_option_def setattr_def)

theorem set_option_checks_attribute_witness:
  "set_option \<lparr>rule_cls = TreeRule, rule_dict = [''strict'' \<mapsto> PyBool False]\<rparr>
     \<lparr>option_name = ''strict'', option_value = PyBool True\<rparr>
     = (None, \<lparr>rule_cls = TreeRule, rule_dict = [''strict'' \<mapsto> PyBool True]\<rparr>) \<and>
   set_option \<lparr>rule_cls = TreeRule, rule_dict = [''strict'' \<mapsto> PyBool False]\<rparr>
     \<lparr>option_name = ''lenient'', option_value = PyBool True\<rparr>
     = (Some invalid_attribute, \<lparr>rule_cls = TreeRule, rule_dict = [''strict'' \<mapsto> PyBool False]\<rparr>)"
proof -
  let ?self = "\<lparr>rule_cls = TreeRule, rule_dict = [''strict'' \<mapsto> PyBool False]\<rparr>"
  have yes: "hasattr ?self ''strict''"
    by (simp add: hasattr_def)
  have no: "\<not> hasattr ?self ''lenient''"
    by (simp add: hasattr_def TreeRule_def BaseRule_def BaseRule_attrs_def SchemaHandler_attrs_def
        object_attrs_def)
  from yes no
    set_option_checks_attribute [of ?self "\<lparr>option_name = ''strict'', option_value = PyBool True\<rparr>"]
    set_option_checks_attribute [of ?self "\<lparr>option_name = ''lenient'', option_value = PyBool True\<rparr>"]
  show ?thesis
    by (simp add: prod_eq_iff)
qed

subsection \<open>Reference integrity\<close>

text \<open>
  C6. Let the iteration over the set difference \<open>referenced - defined\<close> enumerate it
  (each element once, in whatever order). When the difference is not empty,
  \<open>ValidReferenceRule.check\<close> raises an \<open>ElectionError\<close> whose message lists exactly
  the elements of the difference, joined by a comma and a blank; when the difference is
  empty it returns without raising.
\<close>

theorem ValidReferenceRule_check_lists_difference:
  assumes "set (iter (referenced - defined)) = referenced - defined"
    and "distinct (iter (referenced - defined))"
  shows "(referenced - defined \<noteq> {} \<longrightarrow>
            (\<exists>xs. set xs = referenced - defined \<and> distinct xs \<and>
               ValidReferenceRule_check iter missing referenced defined =
                 Some (election_error
                   (''No defined '' @ missing @ '' for '' @ join '', '' xs @
                      '' found in the feed.'') []))) \<and>
         (referenced - defined = {} \<longrightarrow>
            ValidReferenceRule_check iter missing referenced defined = None)"
proof (cases "referenced - defined = {}")
  case True
  then show ?thesis
    by (simp add: ValidReferenceRule_check_def)
next
  case False
  have "ValidReferenceRule_check iter missing referenced defined =
          Some (election_error
            (''No defined '' @ missing @ '' for '' @
               join '', '' (iter (referenced - defined)) @ '' found in the feed.'') [])"
    using False by (simp add: ValidReferenceRule_check_def Let_def)
  with assms False show ?thesis
    by blast
qed

theorem ValidReferenceRule_check_lists_difference_witness:
  "ValidReferenceRule_check (\<lambda>S. if S = {''p2''} then [''p2''] else []) ''data''
     {''p1'', ''p2''} {''p1''} =
     Some (election_error ''No defined data for p2 found in the feed.'' []) \<and>
   ValidReferenceRule_check (\<lambda>S. if S = {''p2''} then [''p2''] else []) ''data''
     {''p1''} {''p1'', ''p2''} = None"
proof -
  let ?iter = "\<lambda>S. if S = {''p2''} then [''p2''] else ([] :: string list)"
  have d1: "{''p1'', ''p2''} - {''p1''} = {''p2''}"
    by auto
  have d2: "{''p1''} - {''p1'', ''p2''} = ({} :: string set)"
    by auto
  have a: "set (?iter ({''p1'', ''p2''} - {''p1''})) = {''p1'', ''p2''} - {''p1''}"
    "distinct (?iter ({''p1'', ''p2''} - {''p1''}))"
    by (simp_all add: d1)
  have b: "set (?iter ({''p1''} - {''p1'', ''p2''})) = {''p1''} - {''p1'', ''p2''}"
    "distinct (?iter ({''p1''} - {''p1'', ''p2''}))"
    by (simp_all add: d2)
  have first: "ValidReferenceRule_check ?iter ''data'' {''p1'', ''p2''} {''p1''} =
      Some (election_error ''No defined data for p2 found in the feed.'' [])"
    using a ValidReferenceRule_check_lists_difference
      [of ?iter "{''p1'', ''p2''}" "{''p1''}" "''data''"]
    by (auto simp: d1 ValidReferenceRule_check_def)
  have second: "ValidReferenceRule_check ?iter ''data'' {''p1''} {''p1'', ''p2''} = None"
    using b ValidReferenceRule_check_lists_difference
      [of ?iter "{''p1''}" "{''p1'', ''p2''}" "''data''"]
    by (simp add: d2)
  from first second show ?thesis
    by simp
qed

subsection \<open>The counters after a run\<close>

lemmas run_defs = register_rules_def register_rule_def RulesRegistry_init_def
  failing_tree_rule_def contest_rule_def TreeRule_def BaseRule_def Let_def add_to_registry_def
  then_do_def tree_val_def report_def schema_def plain_contest_def BaseRule_init_def

lemmas dispatch_defs = check_rules_def check_rule_def exception_handler_def handle_severity_def
  SEVERITIES_def election_error_def dispatch_element_def get_element_class_def TYPE_ATTRIB_def
  XSCHEMA_INSTANCE_NAMESPACE_def class_key_def

text \<open>
  C1, as the code has it. After any run of \<open>check_rules\<close> on a new registry the grand
  total equals the sum of the three per-severity counts. After a run in which both files
  parsed it also equals the sum of all per-(severity, rule class) counts. (A run that ends
  in a parse failure counts the failure in the total and under \<open>ElectionError\<close>, but
  under no rule class.)
\<close>

theorem counts_agree_after_run:
  "total_count (snd (check_rules (RulesRegistry_init ef sf classes options))) =
     severity_total (snd (check_rules (RulesRegistry_init ef sf classes options))) \<and>
   ((\<exists>st et. sf = Parses st \<and> ef = Parses et) \<longrightarrow>
      total_count (snd (check_rules (RulesRegistry_init ef sf classes options))) =
        rule_class_total (snd (check_rules (RulesRegistry_init ef sf classes options))))"
proof (cases sf)
  case (Fails e)
  then show ?thesis
    by (simp add: check_rules_def RulesRegistry_init_def fatal_error_def severity_total_def
        SEVERITIES_def)
next
  case sf: (Parses st)
  show ?thesis
  proof (cases ef)
    case (Fails e)
    with sf show ?thesis
      by (simp add: check_rules_def RulesRegistry_init_def fatal_error_def severity_total_def
          SEVERITIES_def)
  next
    case (Parses et)
    let ?s = "(RulesRegistry_init ef sf classes options)
                \<lparr>schema_tree := Some st, election_tree := Some et\<rparr>"
    have run: "check_rules (RulesRegistry_init ef sf classes options) =
        then_do (register_rules ?s) (\<lambda>self2.
          then_do (for_each (case registry self2 ''tree'' of None \<Rightarrow> [] | Some rules \<Rightarrow> rules)
                     (check_rule None) self2) (\<lambda>self3.
            for_each (iterwalk et) dispatch_element self3))"
      using sf Parses by (simp add: check_rules_def RulesRegistry_init_def)
    have "counts_consistent (snd (check_rules (RulesRegistry_init ef sf classes options)))"
      unfolding run
    proof (rule then_do_invariant)
      show "counts_consistent (snd (register_rules ?s))"
        by (rule registered_facts(1) [OF refl])
    next
      fix s2 assume s2: "counts_consistent s2"
      show "counts_consistent
          (snd (then_do (for_each (case registry s2 ''tree'' of None \<Rightarrow> [] | Some rules \<Rightarrow> rules)
                           (check_rule None) s2)
                  (for_each (iterwalk et) dispatch_element)))"
      proof (rule then_do_invariant)
        show "counts_consistent
            (snd (for_each (case registry s2 ''tree'' of None \<Rightarrow> [] | Some rules \<Rightarrow> rules)
                    (check_rule None) s2))"
          by (rule for_each_invariant) (simp_all add: check_rule_consistent s2)
      next
        fix s3 assume "counts_consistent s3"
        then show "counts_consistent (snd (for_each (iterwalk et) dispatch_element s3))"
          by (rule for_each_invariant [rotated]) (simp add: dispatch_element_consistent)
      qed
    qed
    then show ?thesis
      by (simp add: counts_consistent_def)
  qed
qed

theorem counts_agree_after_run_witness:
  "(\<exists>st et. Parses schema = Parses st \<and> Parses report = Parses et) \<and>
   total_count (snd (check_rules
      (RulesRegistry_init (Parses report) (Parses schema) [failing_tree_rule, contest_rule] Map.empty)))
     = 1 \<and>
   rule_class_total (snd (check_rules
      (RulesRegistry_init (Parses report) (Parses schema) [failing_tree_rule, contest_rule] Map.empty)))
     = 1"
proof -
  have "total_count (snd (check_rules
      (RulesRegistry_init (Parses report) (Parses schema) [failing_tree_rule, contest_rule] Map.empty)))
     = 1"
    by (simp add: run_defs dispatch_defs)
  with counts_agree_after_run
    [of "Parses report" "Parses schema" "[failing_tree_rule, contest_rule]" Map.empty]
  show ?thesis
    by simp
qed

text \<open>
  C1 as stated fails for a run that ends in a parse failure: the total is 1, the
  per-severity counts sum to 1, the per-(severity, rule class) counts sum to 0.
\<close>

theorem parse_failure_breaks_rule_class_total:
  "total_count (snd (check_rules
      (RulesRegistry_init (Parses report) (Fails ''no element found'') [contest_rule] Map.empty)))
     = 1 \<and>
   severity_total (snd (check_rules
      (RulesRegistry_init (Parses report) (Fails ''no element found'') [contest_rule] Map.empty)))
     = 1 \<and>
   rule_class_total (snd (check_rules
      (RulesRegistry_init (Parses report) (Fails ''no element found'') [contest_rule] Map.empty)))
     = 0"
  by (simp add: check_rules_def RulesRegistry_init_def fatal_error_def severity_total_def
      rule_class_total_def SEVERITIES_def)

subsection \<open>A failing rule does not stop the run\<close>

text \<open>
  C2, as the code has it. When both files parse and registration completes, the run makes
  the checks of \<open>dispatch_plan\<close> in order: each rule filed under \<open>"tree"\<close> called once
  without an element, then, for every element of the walk whose resolved class is not the
  empty string, each rule filed under that class called on the element. Every check is
  the \<open>check\<close> of the class of a rule instance that registration made, applied to the
  instance, which keeps what the call left in it. A validation failure raised by a check is caught and handed to
  \<open>exception_handler\<close>, so that the counters hold exactly the failures raised, and the
  checks after it are still made; only an exception that is not a validation failure
  ends the run, and it escapes. Registration itself makes no check.
\<close>

theorem check_rules_invokes_every_rule:
  assumes "register_rules ((RulesRegistry_init (Parses et) (Parses st) classes options)
              \<lparr>schema_tree := Some st, election_tree := Some et\<rparr>) = (None, registered)"
  shows "fst (check_rules (RulesRegistry_init (Parses et) (Parses st) classes options)) =
           fst (expected_checks registered et) \<and>
         instances (snd (check_rules (RulesRegistry_init (Parses et) (Parses st) classes options))) =
           fst (snd (expected_checks registered et)) \<and>
         tallied (snd (snd (expected_checks registered et)))
           (snd (check_rules (RulesRegistry_init (Parses et) (Parses st) classes options))) \<and>
         (\<forall>x. fst (expected_checks registered et) = Some x \<longrightarrow> \<not> is_election_exception x) \<and>
         (fst (expected_checks registered et) = None \<longrightarrow>
            calls (snd (check_rules (RulesRegistry_init (Parses et) (Parses st) classes options))) =
              calls registered @
              map (\<lambda>(i, el). Checked i el) (dispatch_plan (registry registered) et)) \<and>
         (\<forall>c \<in> set (calls registered). \<not> is_check c) \<and>
         (\<forall>p \<in> set (dispatch_plan (registry registered) et).
            fst p < length (instances registered))"
proof -
  let ?s = "(RulesRegistry_init (Parses et) (Parses st) classes options)
              \<lparr>schema_tree := Some st, election_tree := Some et\<rparr>"
  let ?plan = "dispatch_plan (registry registered) et"
  let ?run = "check_rules (RulesRegistry_init (Parses et) (Parses st) classes options)"
  have "?run = then_do (register_rules ?s) (\<lambda>self2.
          then_do (for_each (case registry self2 ''tree'' of None \<Rightarrow> [] | Some rules \<Rightarrow> rules)
                     (check_rule None) self2)
                  (for_each (iterwalk et) dispatch_element))"
    by (simp add: check_rules_def RulesRegistry_init_def)
  then have run: "?run = for_each ?plan step registered"
    unfolding assms by (simp add: dispatch_as_plan)
  have registered: "snd (register_rules ?s) = registered"
    using assms by simp
  have "\<forall>c \<in> set (calls (snd (register_rules ?s))). \<not> is_check c"
    by (rule registered_facts(4) [OF refl])
  then have quiet: "\<forall>c \<in> set (calls registered). \<not> is_check c"
    unfolding registered .
  have "tallied [] (snd (register_rules ?s))"
    by (rule registered_facts(5) [OF refl])
  then have start: "tallied [] registered"
    unfolding registered .
  have "registry_bound (length (instances (snd (register_rules ?s)))) (snd (register_rules ?s))"
    by (rule registered_facts(2) [OF refl])
  then have "registry_bound (length (instances registered)) registered"
    unfolding registered .
  then have bound: "\<forall>p \<in> set ?plan. fst p < length (instances registered)"
    by (rule dispatch_plan_bound)
  obtain stopped final G where out: "replay ?plan (instances registered) = (stopped, final, G)"
    by (cases "replay ?plan (instances registered)")
  have escapes: "\<not> is_election_exception x" if "stopped = Some x" for x
    using out that replay_stop [of ?plan "instances registered" x final G] by simp
  from flat_replay [OF start out] quiet escapes bound show ?thesis
    unfolding run expected_checks_def out by simp
qed

theorem check_rules_invokes_every_rule_witness:
  "fst (register_rules
      ((RulesRegistry_init (Parses report) (Parses schema) [failing_tree_rule, counting_rule] Map.empty)
         \<lparr>schema_tree := Some schema, election_tree := Some report\<rparr>)) = None \<and>
   fst (check_rules
      (RulesRegistry_init (Parses report) (Parses schema) [failing_tree_rule, counting_rule] Map.empty))
     = None \<and>
   map (\<lambda>r. rule_dict r ''seen'') (instances (snd (check_rules
      (RulesRegistry_init (Parses report) (Parses schema) [failing_tree_rule, counting_rule] Map.empty))))
     = [None, Some (PyInt 1)] \<and>
   exception_counts (snd (check_rules
      (RulesRegistry_init (Parses report) (Parses schema) [failing_tree_rule, counting_rule] Map.empty)))
      ElectionError = 1 \<and>
   map_of (exceptions (snd (check_rules
      (RulesRegistry_init (Parses report) (Parses schema) [failing_tree_rule, counting_rule] Map.empty)))
      ElectionError) (2, ''FailingTreeRule'')
     = Some [\<lparr>severities = {ElectionError}, error_message = ''tree is wrong'', error_log = []\<rparr>] \<and>
   total_count (snd (check_rules
      (RulesRegistry_init (Parses report) (Parses schema) [failing_tree_rule, counting_rule] Map.empty)))
     = 1 \<and>
   calls (snd (check_rules
      (RulesRegistry_init (Parses report) (Parses schema) [failing_tree_rule, counting_rule] Map.empty)))
     = [Instantiated ''FailingTreeRule'', SetUp 0, Instantiated ''CountingRule'', SetUp 1,
        Checked 0 None, Checked 1 (Some plain_contest)]"
proof -
  let ?s = "(RulesRegistry_init (Parses report) (Parses schema) [failing_tree_rule, counting_rule]
              Map.empty)\<lparr>schema_tree := Some schema, election_tree := Some report\<rparr>"
  let ?failure = "\<lparr>severities = {ElectionError}, error_message = ''tree is wrong'', error_log = []\<rparr>"
  let ?d = "BaseRule_init (PyTree report) (PyTree schema)"
  have none: "fst (register_rules ?s) = None"
    by (simp add: run_defs counting_rule_def)
  then have reg: "register_rules ?s = (None, snd (register_rules ?s))"
    by (simp add: prod_eq_iff)
  have made: "calls (snd (register_rules ?s)) =
      [Instantiated ''FailingTreeRule'', SetUp 0, Instantiated ''CountingRule'', SetUp 1]"
    by (simp add: run_defs counting_rule_def)
  have table: "registry (snd (register_rules ?s)) = [''tree'' \<mapsto> [0], ''Contest'' \<mapsto> [1]]"
    by (simp add: run_defs counting_rule_def)
  have unseen: "?d ''seen'' = None" and callable: "?d ''check'' = None"
    and plain: "?d ''setup'' = None" "?d ''elements'' = None"
    by (simp_all add: BaseRule_init_def)
  have held: "instances (snd (register_rules ?s)) =
      [\<lparr>rule_cls = failing_tree_rule, rule_dict = ?d\<rparr>, \<lparr>rule_cls = counting_rule, rule_dict = ?d\<rparr>]"
    using plain
    by (simp add: register_rules_def register_rule_def RulesRegistry_init_def Let_def
        tree_val_def failing_tree_rule_def counting_rule_def TreeRule_def BaseRule_def
        add_to_registry_def)
  have plan: "dispatch_plan [''tree'' \<mapsto> [0], ''Contest'' \<mapsto> [1]] report =
      [(0, None), (1, Some plain_contest)]"
    by (simp add: dispatch_plan_def checks_on_def report_def plain_contest_def
        get_element_class_def TYPE_ATTRIB_def XSCHEMA_INSTANCE_NAMESPACE_def)
  have expected: "expected_checks (snd (register_rules ?s)) report =
      (None,
       [\<lparr>rule_cls = failing_tree_rule, rule_dict = ?d\<rparr>,
        \<lparr>rule_cls = counting_rule, rule_dict = ?d(''seen'' \<mapsto> PyInt 1)\<rparr>],
       [((2, ''FailingTreeRule''), ?failure)])"
    unfolding expected_checks_def table held plan
    using unseen callable
    by (simp add: failing_tree_rule_def counting_rule_def TreeRule_def BaseRule_def
        election_error_def class_key_def)
  have counted: "tally ElectionError [((2, ''FailingTreeRule''), ?failure)] = 1"
    "tally ElectionWarning [((2, ''FailingTreeRule''), ?failure)] = 0"
    "tally ElectionInfo [((2, ''FailingTreeRule''), ?failure)] = 0"
    "captured ElectionError (2, ''FailingTreeRule'') [((2, ''FailingTreeRule''), ?failure)] = [?failure]"
    by (simp_all add: tally_def captured_def weight_def)
  from check_rules_invokes_every_rule [OF reg] show ?thesis
    unfolding expected made table plan
    using none unseen counted
    by (simp add: tallied_def tallied_at_def SEVERITIES_def)
qed

text \<open>
  C2 as stated fails where the class an element resolves to is the empty string or
  \<open>"tree"\<close>. On \<open>tree_document\<close> the rule filed under the empty string is never called
  on the child that resolves to it (no warning is counted), and the whole-tree rule is
  called twice, once without an element and once on the root (two errors are counted).
\<close>

theorem rule_under_empty_key_never_invoked:
  "iterwalk tree_document = [untyped_contest, tree_document] \<and>
   get_element_class (Some untyped_contest) = Some [] \<and>
   get_element_class (Some tree_document) = Some ''tree'' \<and>
   fst (check_rules
      (RulesRegistry_init (Parses tree_document) (Parses schema) [failing_tree_rule, empty_key_rule]
         Map.empty)) = None \<and>
   registry (snd (check_rules
      (RulesRegistry_init (Parses tree_document) (Parses schema) [failing_tree_rule, empty_key_rule]
         Map.empty))) = [''tree'' \<mapsto> [0], [] \<mapsto> [1]] \<and>
   calls (snd (check_rules
      (RulesRegistry_init (Parses tree_document) (Parses schema) [failing_tree_rule, empty_key_rule]
         Map.empty)))
     = [Instantiated ''FailingTreeRule'', SetUp 0, Instantiated ''EmptyKeyRule'', SetUp 1,
        Checked 0 None, Checked 0 (Some tree_document)] \<and>
   exception_counts (snd (check_rules
      (RulesRegistry_init (Parses tree_document) (Parses schema) [failing_tree_rule, empty_key_rule]
         Map.empty))) ElectionWarning = 0 \<and>
   exception_counts (snd (check_rules
      (RulesRegistry_init (Parses tree_document) (Parses schema) [failing_tree_rule, empty_key_rule]
         Map.empty))) ElectionError = 2"
  by (simp add: register_rules_def register_rule_def RulesRegistry_init_def failing_tree_rule_def
      empty_key_rule_def TreeRule_def BaseRule_def BaseRule_init_def Let_def add_to_registry_def
      then_do_def tree_val_def tree_document_def untyped_contest_def schema_def dispatch_defs)

subsection \<open>A file that does not parse\<close>

text \<open>
  C4. When the schema file or the document file does not parse, \<open>check_rules\<close> on a new
  registry returns with a grand total of one, counted under \<open>ElectionError\<close> and under no
  other severity; the dispatch table is empty, no rule object exists, and no rule code
  (constructor, \<open>setup\<close>, \<open>check\<close>) was called.
\<close>

theorem parse_failure_is_fatal:
  assumes "(\<exists>e. sf = Fails e) \<or> (\<exists>e. ef = Fails e)"
  shows "fst (check_rules (RulesRegistry_init ef sf classes options)) = None \<and>
         total_count (snd (check_rules (RulesRegistry_init ef sf classes options))) = 1 \<and>
         exception_counts (snd (check_rules (RulesRegistry_init ef sf classes options))) =
           (\<lambda>e_type. if e_type = ElectionError then 1 else 0) \<and>
         registry (snd (check_rules (RulesRegistry_init ef sf classes options))) = Map.empty \<and>
         instances (snd (check_rules (RulesRegistry_init ef sf classes options))) = [] \<and>
         calls (snd (check_rules (RulesRegistry_init ef sf classes options))) = []"
proof (cases sf)
  case (Fails e)
  then show ?thesis
    by (auto simp: check_rules_def RulesRegistry_init_def fatal_error_def)
next
  case (Parses st)
  with assms obtain e where "ef = Fails e"
    by auto
  with Parses show ?thesis
    by (auto simp: check_rules_def RulesRegistry_init_def fatal_error_def)
qed

theorem parse_failure_is_fatal_witness:
  "total_count (snd (check_rules
      (RulesRegistry_init (Fails ''mismatched tag'') (Parses schema) [failing_tree_rule] Map.empty)))
     = 1 \<and>
   exception_counts (snd (check_rules
      (RulesRegistry_init (Fails ''mismatched tag'') (Parses schema) [failing_tree_rule] Map.empty)))
      ElectionError = 1 \<and>
   calls (snd (check_rules
      (RulesRegistry_init (Fails ''mismatched tag'') (Parses schema) [failing_tree_rule] Map.empty)))
     = []"
  using parse_failure_is_fatal
    [of "Parses schema" "Fails ''mismatched tag''" "[failing_tree_rule]" Map.empty]
  by simp

subsection \<open>An option that names no attribute\<close>

text \<open>
  C8, as the code has it. \<open>register_rules\<close> catches nothing. When the options filed
  under a rule class name an attribute its instance does not have, the configuration
  failure leaves \<open>register_rules\<close> and \<open>check_rules\<close> at once: the rule classes before
  it stay registered as they were, the failing class and every class after it are not
  entered in the dispatch table, the classes after it are not even instantiated, and no
  check is made. (Where \<open>set_option\<close> is hidden by a value of the instance before the
  option that names no attribute is reached, what leaves at that point is the
  \<open>TypeError\<close> of calling that value, with the same effect.)
\<close>

theorem configuration_failure_aborts_registration:
  assumes earlier: "for_each before register_rule
        ((RulesRegistry_init (Parses et) (Parses st) (before @ rule # after) options)
           \<lparr>schema_tree := Some st, election_tree := Some et\<rparr>) = (None, s1)"
    and made: "rc_init rule (PyTree et) (PyTree st) = Inr d"
    and filed: "options (rc_name rule) = Some opts"
    and bad: "\<exists>opt \<in> set opts. \<not> hasattr \<lparr>rule_cls = rule, rule_dict = d\<rparr> (option_name opt)"
  shows "check_rules (RulesRegistry_init (Parses et) (Parses st) (before @ rule # after) options) =
           (Some (if hides_set_option \<lparr>rule_cls = rule, rule_dict = d\<rparr> opts then TypeError
                  else invalid_attribute),
            s1\<lparr>calls := calls s1 @ [Instantiated (rc_name rule)]\<rparr>)"
proof -
  let ?e = "if hides_set_option \<lparr>rule_cls = rule, rule_dict = d\<rparr> opts then TypeError
            else invalid_attribute"
  let ?s = "(RulesRegistry_init (Parses et) (Parses st) (before @ rule # after) options)
              \<lparr>schema_tree := Some st, election_tree := Some et\<rparr>"
  have "register_frame ?s (snd (for_each before register_rule ?s))"
    by (rule register_loop_frame)
  then have s1: "election_tree s1 = Some et" "schema_tree s1 = Some st" "rule_options s1 = options"
    using earlier by (simp_all add: register_frame_def RulesRegistry_init_def)
  have "fst (for_each opts apply_option \<lparr>rule_cls = rule, rule_dict = d\<rparr>) = Some ?e"
    using bad by (rule apply_options_fails)
  then obtain inst where
    "for_each opts apply_option \<lparr>rule_cls = rule, rule_dict = d\<rparr> = (Some ?e, inst)"
    by (cases "for_each opts apply_option \<lparr>rule_cls = rule, rule_dict = d\<rparr>") simp
  then have this_rule: "register_rule rule s1 =
      (Some ?e, s1\<lparr>calls := calls s1 @ [Instantiated (rc_name rule)]\<rparr>)"
    using made filed s1
    by (simp add: register_rule_def Let_def tree_val_def)
  have "register_rules ?s = then_do (for_each before register_rule ?s) (for_each (rule # after) register_rule)"
    by (simp add: register_rules_def RulesRegistry_init_def for_each_append)
  then have "register_rules ?s =
      (Some ?e, s1\<lparr>calls := calls s1 @ [Instantiated (rc_name rule)]\<rparr>)"
    using earlier this_rule by simp
  then show ?thesis
    by (simp add: check_rules_def RulesRegistry_init_def)
qed

theorem configuration_failure_aborts_registration_witness:
  "fst (check_rules
      (RulesRegistry_init (Parses report) (Parses schema)
         [contest_rule, failing_tree_rule, TreeRule] [''FailingTreeRule'' \<mapsto> [bad_option]]))
     = Some invalid_attribute \<and>
   registry (snd (check_rules
      (RulesRegistry_init (Parses report) (Parses schema)
         [contest_rule, failing_tree_rule, TreeRule] [''FailingTreeRule'' \<mapsto> [bad_option]])))
     = [''Contest'' \<mapsto> [0]] \<and>
   calls (snd (check_rules
      (RulesRegistry_init (Parses report) (Parses schema)
         [contest_rule, failing_tree_rule, TreeRule] [''FailingTreeRule'' \<mapsto> [bad_option]])))
     = [Instantiated ''ContestRule'', SetUp 0, Instantiated ''FailingTreeRule'']"
proof -
  let ?options = "[''FailingTreeRule'' \<mapsto> [bad_option]]"
  let ?s = "(RulesRegistry_init (Parses report) (Parses schema)
              ([contest_rule] @ failing_tree_rule # [TreeRule]) ?options)
              \<lparr>schema_tree := Some schema, election_tree := Some report\<rparr>"
  let ?s1 = "snd (for_each [contest_rule] register_rule ?s)"
  have "fst (for_each [contest_rule] register_rule ?s) = None"
    by (simp add: run_defs)
  then have earlier: "for_each [contest_rule] register_rule ?s = (None, ?s1)"
    by (simp add: prod_eq_iff)
  have made: "rc_init failing_tree_rule (PyTree report) (PyTree schema) =
      Inr (BaseRule_init (PyTree report) (PyTree schema))"
    by (simp add: failing_tree_rule_def TreeRule_def BaseRule_def)
  have filed: "?options (rc_name failing_tree_rule) = Some [bad_option]"
    by (simp add: failing_tree_rule_def TreeRule_def BaseRule_def)
  have bad: "\<exists>opt \<in> set [bad_option].
      \<not> hasattr \<lparr>rule_cls = failing_tree_rule,
                  rule_dict = BaseRule_init (PyTree report) (PyTree schema)\<rparr> (option_name opt)"
    by (simp add: hasattr_def bad_option_def failing_tree_rule_def TreeRule_def BaseRule_def
        BaseRule_init_def BaseRule_attrs_def SchemaHandler_attrs_def
        object_attrs_def)
  have callable: "\<not> hides_set_option
      \<lparr>rule_cls = failing_tree_rule, rule_dict = BaseRule_init (PyTree report) (PyTree schema)\<rparr>
      [bad_option]"
    by (simp add: hides_set_option_def hasattr_def bad_option_def failing_tree_rule_def
        TreeRule_def BaseRule_def BaseRule_init_def BaseRule_attrs_def SchemaHandler_attrs_def
        object_attrs_def)
  have run: "check_rules (RulesRegistry_init (Parses report) (Parses schema)
                ([contest_rule] @ failing_tree_rule # [TreeRule]) ?options) =
      (Some invalid_attribute, ?s1\<lparr>calls := calls ?s1 @ [Instantiated (rc_name failing_tree_rule)]\<rparr>)"
    using configuration_failure_aborts_registration [OF earlier made filed bad]
    by (simp only: callable if_False)
  have name: "rc_name failing_tree_rule = ''FailingTreeRule''"
    by (simp add: failing_tree_rule_def TreeRule_def BaseRule_def)
  have table: "registry ?s1 = [''Contest'' \<mapsto> [0]]"
    by (simp add: run_defs)
  have made_calls: "calls ?s1 = [Instantiated ''ContestRule'', SetUp 0]"
    by (simp add: run_defs)
  have classes: "[contest_rule, failing_tree_rule, TreeRule] =
      [contest_rule] @ failing_tree_rule # [TreeRule]"
    by simp
  show ?thesis
    unfolding classes run
    using table made_calls name by simp
qed

text \<open>
  An option that assigns to \<open>set_option\<close> hides the method for the options after it:
  the option that names no attribute is then not reached by \<open>set_option\<close>, and what
  leaves \<open>register_rules\<close> is a \<open>TypeError\<close>.
\<close>

lemma hidden_set_option_raises_type_error:
  "register_rules
      ((RulesRegistry_init (Parses report) (Parses schema) [failing_tree_rule, contest_rule]
          [''FailingTreeRule'' \<mapsto>
             [\<lparr>option_name = ''set_option'', option_value = PyBool True\<rparr>, bad_option]])
         \<lparr>schema_tree := Some schema, election_tree := Some report\<rparr>)
     = (Some TypeError,
        (RulesRegistry_init (Parses report) (Parses schema) [failing_tree_rule, contest_rule]
          [''FailingTreeRule'' \<mapsto>
             [\<lparr>option_name = ''set_option'', option_value = PyBool True\<rparr>, bad_option]])
         \<lparr>schema_tree := Some schema, election_tree := Some report,
           calls := [Instantiated ''FailingTreeRule'']\<rparr>)"
  by (simp add: run_defs apply_option_def set_option_def setattr_def hasattr_def bad_option_def
      BaseRule_attrs_def SchemaHandler_attrs_def object_attrs_def)

text \<open>
  C8 as stated fails: with a bad option filed for the first of two rule classes, the
  second is neither instantiated nor entered in the dispatch table.
\<close>

theorem later_rule_not_registered:
  "fst (register_rules
      ((RulesRegistry_init (Parses report) (Parses schema) [failing_tree_rule, contest_rule]
          [''FailingTreeRule'' \<mapsto> [bad_option]])
         \<lparr>schema_tree := Some schema, election_tree := Some report\<rparr>))
     = Some invalid_attribute \<and>
   registry (snd (register_rules
      ((RulesRegistry_init (Parses report) (Parses schema) [failing_tree_rule, contest_rule]
          [''FailingTreeRule'' \<mapsto> [bad_option]])
         \<lparr>schema_tree := Some schema, election_tree := Some report\<rparr>))) ''Contest''
     = None \<and>
   calls (snd (register_rules
      ((RulesRegistry_init (Parses report) (Parses schema) [failing_tree_rule, contest_rule]
          [''FailingTreeRule'' \<mapsto> [bad_option]])
         \<lparr>schema_tree := Some schema, election_tree := Some report\<rparr>)))
     = [Instantiated ''FailingTreeRule'']"
  by (simp add: run_defs apply_option_def set_option_def hasattr_def bad_option_def
      BaseRule_attrs_def SchemaHandler_attrs_def
        object_attrs_def)

subsection \<open>Printing below the threshold\<close>

lemma print_severity_silent:
  "exception_counts self e_type = 0 \<Longrightarrow> print_severity exc_str verbose e_type self = (None, self)"
  by (simp add: print_severity_def)

lemma print_loop_silent:
  "\<forall>e_type \<in> set types. exception_counts self e_type = 0 \<Longrightarrow>
   for_each types (print_severity exc_str verbose) self = (None, self)"
  by (induction types) (simp_all add: print_severity_silent)

lemma show_nat_starts: "show_nat n \<noteq> [] \<and> hd (show_nat n) \<in> set ''0123456789''"
proof (induction n rule: show_nat.induct)
  case (1 n)
  show ?case
  proof (cases "n < 10")
    case True
    then have "''0123456789'' ! n \<in> set ''0123456789''"
      by (intro nth_mem) simp
    with True show ?thesis
      by (simp add: show_nat.simps [of n])
  next
    case False
    with 1 show ?thesis
      by (simp add: show_nat.simps [of n])
  qed
qed

lemma show_int_line: "report_line (show_int i @ rest)"
  using show_nat_starts [of "nat i"] show_nat_starts [of "nat (- i)"]
  by (auto simp: report_line_def show_int_def)

lemma rjust_line: "report_line (s @ rest) \<Longrightarrow> s \<noteq> [] \<Longrightarrow> report_line (rjust w (CHR '' '') s @ rest)"
  by (cases "w - length s") (simp_all add: report_line_def rjust_def)

lemma show_int_nonempty: "show_int i \<noteq> []"
  using show_nat_starts [of "nat i"] by (simp add: show_int_def)

lemma count_line: "report_line (rjust w (CHR '' '') (show_int i) @ rest)"
  by (rule rjust_line) (simp_all add: show_int_line show_int_nonempty)

lemma indented_line: "report_line (replicate 14 (CHR '' '') @ rest)"
  by (simp add: report_line_def eval_nat_numeral)

lemma print_exception_lines: "\<forall>l \<in> set (print_exception exc_str e). report_line l"
  by (auto simp: print_exception_def indented_line split: option.splits)

lemma print_rule_class_lines:
  "\<forall>l \<in> set (print_rule_class exc_str verbose name entry). report_line l"
proof (cases entry)
  case (fields rule_class rule_count raised)
  have "report_line (rjust 10 (CHR '' '') (show_int rule_count) @ rest)" for rest
    by (rule count_line)
  with fields show ?thesis
    using print_exception_lines [of exc_str]
    by (auto simp: print_rule_class_def simp del: append_assoc)
qed

lemma print_severity_lines:
  "\<exists>lines. stdout (snd (print_severity exc_str verbose t s)) = stdout s @ lines \<and>
           (\<forall>l \<in> set lines. report_line l)"
proof (cases "exception_counts s t = 0")
  case True
  then show ?thesis
    by (simp add: print_severity_def)
next
  case counted: False
  let ?header = "rjust 6 (CHR '' '') (show_int (exception_counts s t)) @ '' '' @
      description t @ '' message'' @ (if exception_counts s t > 1 then ''s'' else []) @ '' found''"
  have header: "report_line ?header"
    by (rule count_line)
  show ?thesis
  proof (cases "counted_classes s t")
    case None
    with counted have "stdout (snd (print_severity exc_str verbose t s)) = stdout s @ [?header]"
      by (simp add: print_severity_def Let_def)
    with header show ?thesis
      by simp
  next
    case (Some classes)
    let ?rest = "concat (map (print_rule_class exc_str verbose (description t))
                          (sort_key (\<lambda>(rule_class, n, raised). - n) classes))"
    from Some counted
    have "stdout (snd (print_severity exc_str verbose t s)) = stdout s @ (?header # ?rest)"
      by (simp add: print_severity_def Let_def)
    moreover have "\<forall>l \<in> set (?header # ?rest). report_line l"
      using header print_rule_class_lines [of exc_str verbose "description t"] by auto
    ultimately show ?thesis
      by blast
  qed
qed

lemma print_loop_lines:
  "\<exists>lines. stdout (snd (for_each types (print_severity exc_str verbose) s)) = stdout s @ lines \<and>
           (\<forall>l \<in> set lines. report_line l)"
proof (rule for_each_invariant
    [where P = "\<lambda>r :: RulesRegistry. \<exists>lines. stdout r = stdout s @ lines \<and> (\<forall>l \<in> set lines. report_line l)"])
  show "\<exists>lines. stdout s = stdout s @ lines \<and> (\<forall>l \<in> set lines. report_line l)"
    by simp
next
  fix t and r :: RulesRegistry
  assume "\<exists>lines. stdout r = stdout s @ lines \<and> (\<forall>l \<in> set lines. report_line l)"
  then obtain before where before: "stdout r = stdout s @ before" "\<forall>l \<in> set before. report_line l"
    by blast
  obtain now where now: "stdout (snd (print_severity exc_str verbose t r)) = stdout r @ now"
    "\<forall>l \<in> set now. report_line l"
    using print_severity_lines [of exc_str verbose t r] by blast
  have "stdout (snd (print_severity exc_str verbose t r)) = stdout s @ (before @ now)"
    using before now by simp
  moreover have "\<forall>l \<in> set (before @ now). report_line l"
    using before now by auto
  ultimately show "\<exists>lines. stdout (snd (print_severity exc_str verbose t r)) = stdout s @ lines \<and>
      (\<forall>l \<in> set lines. report_line l)"
    by blast
qed

lemma clean_run_message_no_report_line: "\<not> report_line clean_run_message"
  by (simp add: report_line_def clean_run_message_def)

lemma info_only_eq:
  "info_only =
     (RulesRegistry_init (Parses report) (Parses schema) [contest_rule] Map.empty)
       \<lparr>exceptions := (\<lambda>e_type. [])(ElectionInfo :=
           [((3, ''ContestRule''), [\<lparr>severities = {ElectionInfo},
               error_message = ''contest has no name'', error_log = []\<rparr>])]),
        exception_counts := (\<lambda>e_type. 0)(ElectionInfo := 1),
        exception_rule_counts := (\<lambda>e_type. [])(ElectionInfo := [((3, ''ContestRule''), 1)]),
        total_count := 1\<rparr>"
  by (simp add: info_only_def exception_handler_def handle_severity_def SEVERITIES_def
      RulesRegistry_init_def contest_rule_def BaseRule_def Let_def class_key_def)

lemma error_only_eq:
  "error_only =
     (RulesRegistry_init (Parses report) (Parses schema) [contest_rule] Map.empty)
       \<lparr>exceptions := (\<lambda>e_type. [])(ElectionError :=
           [((3, ''ContestRule''), [\<lparr>severities = {ElectionError},
               error_message = ''contest has no name'', error_log = []\<rparr>])]),
        exception_counts := (\<lambda>e_type. 0)(ElectionError := 1),
        exception_rule_counts := (\<lambda>e_type. [])(ElectionError := [((3, ''ContestRule''), 1)]),
        total_count := 1\<rparr>"
  by (simp add: error_only_def exception_handler_def handle_severity_def SEVERITIES_def
      RulesRegistry_init_def contest_rule_def BaseRule_def Let_def class_key_def)

lemma show_nat_digit: "n < 10 \<Longrightarrow> show_nat n = [''0123456789'' ! n]"
  by (simp add: show_nat.simps)

text \<open>What a report looks like: one \<open>Info\<close> message, printed with the default threshold.\<close>

lemma print_exceptions_example:
  "stdout (snd (print_exceptions error_message info_only None True)) =
     [''     1 Info message found'',
      ''         1 ContestRule Info message'',
      ''              contest has no name'']"
  by (simp add: info_only_eq print_exceptions_def print_severity_def counted_classes_def
      print_rule_class_def print_exception_def slice_from_def rjust_def show_int_def
      SEVERITIES_def Let_def show_nat_digit RulesRegistry_init_def eval_nat_numeral)

text \<open>
  A threshold past the last severity. With one \<open>Error\<close> counted, the threshold 3 leaves
  no severity to report and nothing is printed; a threshold of 4 is reset to 2, and the
  error is reported as with the threshold 2.
\<close>

lemma threshold_past_the_severities:
  "stdout (snd (print_exceptions error_message error_only (Some 3) False)) = [] \<and>
   stdout (snd (print_exceptions error_message error_only (Some 4) False)) =
     [''     1 Error message found'', ''         1 ContestRule Error message''] \<and>
   stdout (snd (print_exceptions error_message error_only (Some 2) False)) =
     [''     1 Error message found'', ''         1 ContestRule Error message'']"
  by (simp add: error_only_eq print_exceptions_def print_severity_def counted_classes_def
      print_rule_class_def slice_from_def rjust_def show_int_def
      SEVERITIES_def Let_def show_nat_digit RulesRegistry_init_def eval_nat_numeral)

text \<open>
  C5, as the code has it. The clean-run line is printed exactly when the grand total is
  zero: with a total of zero it is the one line printed, and with any other total the
  lines printed are lines of the report, none of which is the clean-run line. When the
  grand total is not zero and every failure counted lies at a severity strictly below the
  threshold \<open>m\<close> passed as \<open>min_severity\<close>, the position of a severity (0, 1 or 2),
  \<open>print_exceptions\<close> prints nothing at all.
\<close>

theorem print_exceptions_below_threshold:
  "(total_count self = 0 \<longrightarrow>
      print_exceptions exc_str self severity verbose =
        (None, self\<lparr>stdout := stdout self @ [clean_run_message]\<rparr>)) \<and>
   (total_count self \<noteq> 0 \<longrightarrow>
      take (length (stdout self)) (stdout (snd (print_exceptions exc_str self severity verbose))) =
        stdout self \<and>
      clean_run_message \<notin> set (printed self (snd (print_exceptions exc_str self severity verbose)))) \<and>
   (total_count self \<noteq> 0 \<and> 0 \<le> m \<and> m \<le> 2 \<and>
    (\<forall>e_type. exception_counts self e_type \<noteq> 0 \<longrightarrow> rank e_type < m) \<longrightarrow>
      print_exceptions exc_str self (Some m) verbose = (None, self))"
proof (intro conjI impI)
  assume "total_count self = 0"
  then show "print_exceptions exc_str self severity verbose =
        (None, self\<lparr>stdout := stdout self @ [clean_run_message]\<rparr>)"
    by (simp add: print_exceptions_def Let_def)
next
  assume counted: "total_count self \<noteq> 0"
  then obtain types where
    "print_exceptions exc_str self severity verbose =
       for_each types (print_severity exc_str verbose) self"
    by (simp add: print_exceptions_def Let_def)
  with print_loop_lines [of types exc_str verbose self]
  obtain lines where
    lines: "stdout (snd (print_exceptions exc_str self severity verbose)) = stdout self @ lines"
      "\<forall>l \<in> set lines. report_line l"
    by auto
  from lines(1)
  show "take (length (stdout self)) (stdout (snd (print_exceptions exc_str self severity verbose))) =
        stdout self"
    by simp
  from lines
  show "clean_run_message \<notin> set (printed self (snd (print_exceptions exc_str self severity verbose)))"
    using clean_run_message_no_report_line by (auto simp: printed_def)
next
  assume a: "total_count self \<noteq> 0 \<and> 0 \<le> m \<and> m \<le> 2 \<and>
    (\<forall>e_type. exception_counts self e_type \<noteq> 0 \<longrightarrow> rank e_type < m)"
  then have zero: "exception_counts self e_type = 0" if "m \<le> rank e_type" for e_type
    using that by force
  let ?types = "slice_from m SEVERITIES"
  have sev1: "(case Some m of
                 None \<Rightarrow> 0
               | Some n \<Rightarrow>
                   (if n = 0 then 0
                    else if n > int (length SEVERITIES) then int (length SEVERITIES) - 1
                    else n)) = m"
    using a by (simp add: SEVERITIES_def)
  from a consider "m = 0" | "m = 1" | "m = 2"
    by force
  then have "\<forall>e_type \<in> set (rev ?types). exception_counts self e_type = 0"
  proof cases
    case 1
    have "m \<le> rank e_type" for e_type
      using 1 by (cases e_type) simp_all
    with zero show ?thesis by simp
  next
    case 2
    with zero [of ElectionWarning] zero [of ElectionError] show ?thesis
      by (simp add: SEVERITIES_def slice_from_def)
  next
    case 3
    with zero [of ElectionError] show ?thesis
      by (simp add: SEVERITIES_def slice_from_def)
  qed
  then have "for_each (rev ?types) (print_severity exc_str verbose) self = (None, self)"
    by (rule print_loop_silent)
  with a show "print_exceptions exc_str self (Some m) verbose = (None, self)"
    unfolding print_exceptions_def Let_def sev1 by simp
qed

theorem print_exceptions_below_threshold_witness:
  "total_count info_only = 1 \<and>
   exception_counts info_only ElectionInfo = 1 \<and> rank ElectionInfo < 1 \<and>
   exception_counts info_only ElectionWarning = 0 \<and>
   exception_counts info_only ElectionError = 0 \<and>
   print_exceptions error_message info_only (Some 1) True = (None, info_only) \<and>
   clean_run_message \<notin> set (printed info_only (snd (print_exceptions error_message info_only None True)))"
proof -
  have "\<forall>e_type. exception_counts info_only e_type \<noteq> 0 \<longrightarrow> rank e_type < 1"
    by (simp add: info_only_eq)
  moreover have "total_count info_only \<noteq> 0"
    by (simp add: info_only_eq)
  ultimately show ?thesis
    using print_exceptions_below_threshold [of info_only error_message None True 1]
    by (simp add: info_only_eq)
qed

text \<open>
  C5 as stated fails: with one \<open>Info\<close> failure counted and the threshold at
  \<open>Warning\<close>, nothing is printed, so the clean-run line is not.
\<close>

theorem print_exceptions_prints_nothing:
  "total_count info_only = 1 \<and>
   exception_counts info_only ElectionInfo = 1 \<and>
   exception_counts info_only ElectionWarning = 0 \<and>
   exception_counts info_only ElectionError = 0 \<and>
   stdout (snd (print_exceptions error_message info_only (Some 1) False)) = [] \<and>
   stdout (snd (print_exceptions error_message info_only (Some 1) False)) \<noteq> [clean_run_message]"
  by (simp add: info_only_eq print_exceptions_def print_severity_def slice_from_def
      SEVERITIES_def Let_def RulesRegistry_init_def)

subsection \<open>The calendar\<close>

lemma div_step_gen:
  fixes y :: int
  assumes "0 < k"
  shows "y div k = (y - 1) div k + (if y mod k = 0 then 1 else 0)"
proof (cases "y mod k = 0")
  case True
  then obtain q where q: "y = k * q"
    by auto
  have "(k * q - 1) div k = q - 1"
  proof -
    have eq: "k * q - 1 = (k - 1) + k * (q - 1)"
      by (simp add: algebra_simps)
    have "(k * q - 1) div k = ((k - 1) + k * (q - 1)) div k"
      by (simp only: eq)
    also have "\<dots> = (k - 1) div k + (q - 1)"
      using assms by (simp only: div_mult_self2 [OF less_imp_neq [OF assms, symmetric]])
    also have "(k - 1) div k = 0"
      using assms by (simp add: div_pos_pos_trivial)
    finally show ?thesis by simp
  qed
  with True q assms show ?thesis
    by simp
next
  case False
  have "0 \<le> y mod k"
    using assms by (rule pos_mod_sign)
  moreover have "y mod k < k"
    using assms by (rule pos_mod_bound)
  ultimately have m: "0 < y mod k" "y mod k < k"
    using False by simp_all
  have eq: "y - 1 = (y mod k - 1) + k * (y div k)"
    by (simp add: algebra_simps)
  have "(y - 1) div k = ((y mod k - 1) + k * (y div k)) div k"
    by (rule arg_cong [where f = "\<lambda>x. x div k", OF eq])
  also have "\<dots> = (y mod k - 1) div k + y div k"
    using assms by (simp only: div_mult_self2 [OF less_imp_neq [OF assms, symmetric]])
  also have "(y mod k - 1) div k = 0"
    using m by (simp add: div_pos_pos_trivial)
  finally show ?thesis
    using False by simp
qed

lemma dvd_mod_zero:
  fixes y :: int
  assumes "a dvd b" "y mod b = 0"
  shows "y mod a = 0"
proof -
  from assms(2) have "b dvd y" by (simp add: dvd_eq_mod_eq_0)
  with assms(1) have "a dvd y" by (rule dvd_trans)
  then show ?thesis by simp
qed

lemma days_before_year_step:
  "days_before_year (y + 1) = days_before_year y + 365 + (if is_leap y then 1 else 0)"
proof -
  have d4: "y div 4 = (y - 1) div 4 + (if y mod 4 = 0 then 1 else 0)"
    by (rule div_step_gen) simp
  have d100: "y div 100 = (y - 1) div 100 + (if y mod 100 = 0 then 1 else 0)"
    by (rule div_step_gen) simp
  have d400: "y div 400 = (y - 1) div 400 + (if y mod 400 = 0 then 1 else 0)"
    by (rule div_step_gen) simp
  have "days_before_year (y + 1) = y * 365 + y div 4 - y div 100 + y div 400"
    by (simp add: days_before_year_def)
  also have "\<dots> = days_before_year y + 365 + (if y mod 4 = 0 then 1 else 0)
      - (if y mod 100 = 0 then 1 else 0) + (if y mod 400 = 0 then 1 else 0)"
    unfolding days_before_year_def
    by (subst d4, subst d100, subst d400) (simp add: algebra_simps)
  finally have e: "days_before_year (y + 1) = days_before_year y + 365 +
      (if y mod 4 = 0 then 1 else 0) - (if y mod 100 = 0 then 1 else 0) +
      (if y mod 400 = 0 then 1 else 0)" .
  have i1: "y mod 100 = 0 \<Longrightarrow> y mod 4 = 0"
    by (rule dvd_mod_zero [of 4 100]) simp_all
  have i2: "y mod 400 = 0 \<Longrightarrow> y mod 100 = 0"
    by (rule dvd_mod_zero [of 100 400]) simp_all
  show ?thesis
  proof (cases "y mod 4 = 0")
    case False
    with i1 i2 have "y mod 100 \<noteq> 0" "y mod 400 \<noteq> 0" by auto
    with False e show ?thesis by (simp add: is_leap_def)
  next
    case four: True
    show ?thesis
    proof (cases "y mod 100 = 0")
      case False
      with i2 have "y mod 400 \<noteq> 0" by auto
      with four False e show ?thesis by (simp add: is_leap_def)
    next
      case True
      with four e show ?thesis by (cases "y mod 400 = 0") (simp_all add: is_leap_def)
    qed
  qed
qed


lemma days_before_year_mono: "a \<le> b \<Longrightarrow> days_before_year a \<le> days_before_year b"
proof (induction b rule: int_ge_induct)
  case base
  show ?case by simp
next
  case (step i)
  then show ?case
    by (simp add: days_before_year_step)
qed

lemma month_cases:
  assumes "1 \<le> m" "m \<le> (12::int)"
  shows "m = 1 \<or> m = 2 \<or> m = 3 \<or> m = 4 \<or> m = 5 \<or> m = 6 \<or> m = 7 \<or> m = 8 \<or> m = 9 \<or>
         m = 10 \<or> m = 11 \<or> m = 12"
  using assms by arith

lemma days_before_month_step:
  assumes "1 \<le> m" "m \<le> 12"
  shows "days_before_month y m + days_in_month y m =
         (if m = 12 then 365 + (if is_leap y then 1 else 0) else days_before_month y (m + 1))"
  using month_cases [OF assms]
  by (elim disjE) (simp_all add: days_before_month_def days_in_month_def)

lemma days_in_month_pos: "1 \<le> m \<Longrightarrow> m \<le> 12 \<Longrightarrow> 28 \<le> days_in_month y m"
  using month_cases [of m]
  by (auto simp: days_in_month_def)

lemma days_before_month_mono:
  assumes "1 \<le> a" "a \<le> b" "b \<le> 12"
  shows "days_before_month y a \<le> days_before_month y b"
  using assms(2,1,3)
proof (induction b rule: int_ge_induct)
  case base
  show ?case by simp
next
  case (step i)
  have "days_before_month y i + days_in_month y i = days_before_month y (i + 1)"
    using days_before_month_step [of i y] step by simp
  moreover have "28 \<le> days_in_month y i"
    using days_in_month_pos [of i y] step by simp
  ultimately show ?case
    using step by simp
qed

lemma days_before_month_bound:
  assumes "1 \<le> m" "m \<le> 12"
  shows "0 \<le> days_before_month y m \<and>
         days_before_month y m + days_in_month y m \<le> 365 + (if is_leap y then 1 else 0)"
proof -
  have "days_before_month y 1 \<le> days_before_month y m"
    using assms by (intro days_before_month_mono) simp_all
  moreover have "days_before_month y 1 = 0"
    by (simp add: days_before_month_def)
  moreover have "days_before_month y m + days_in_month y m \<le> 365 + (if is_leap y then 1 else 0)"
  proof (cases "m = 12")
    case True
    then show ?thesis using days_before_month_step [of 12 y] by simp
  next
    case False
    then have "days_before_month y (m + 1) \<le> days_before_month y 12"
      using assms by (intro days_before_month_mono) simp_all
    moreover have "days_before_month y 12 \<le> 365 + (if is_leap y then 1 else 0)"
      using days_before_month_step [of 12 y] days_in_month_pos [of 12 y] by simp
    ultimately show ?thesis
      using days_before_month_step [of m y] assms False by simp
  qed
  ultimately show ?thesis by simp
qed

lemma toordinal_mono:
  assumes "valid_date a" "valid_date b" "earlier a b"
  shows "toordinal a < toordinal b"
proof -
  from assms(3) consider
      (y) "year a < year b"
    | (m) "year a = year b" "month a < month b"
    | (d) "year a = year b" "month a = month b" "day a < day b"
    by (auto simp: earlier_def)
  then show ?thesis
  proof cases
    case y
    have "toordinal a \<le> days_before_year (year a) + 365 + (if is_leap (year a) then 1 else 0)"
      using assms(1) days_before_month_bound [of "month a" "year a"]
      by (simp add: toordinal_def valid_date_def)
    also have "\<dots> = days_before_year (year a + 1)"
      by (simp add: days_before_year_step)
    also have "\<dots> \<le> days_before_year (year b)"
      using y by (intro days_before_year_mono) simp
    also have "\<dots> < toordinal b"
      using assms(2) days_before_month_bound [of "month b" "year b"]
      by (simp add: toordinal_def valid_date_def)
    finally show ?thesis .
  next
    case m
    have "days_before_month (year a) (month a) + day a \<le> days_before_month (year a) (month a + 1)"
      using assms(1,2) m days_before_month_step [of "month a" "year a"]
      by (simp add: valid_date_def split: if_splits)
    also have "\<dots> \<le> days_before_month (year a) (month b)"
      using assms(1,2) m by (intro days_before_month_mono) (simp_all add: valid_date_def)
    finally show ?thesis
      using assms(2) m by (simp add: toordinal_def valid_date_def)
  next
    case d
    then show ?thesis
      by (simp add: toordinal_def)
  qed
qed

lemma days_between_negative:
  assumes "valid_date a" "valid_date b"
  shows "days_between a b < 0 \<longleftrightarrow> earlier a b"
proof
  assume "earlier a b"
  with assms show "days_between a b < 0"
    by (simp add: days_between_def toordinal_mono)
next
  assume neg: "days_between a b < 0"
  show "earlier a b"
  proof (rule ccontr)
    assume not: "\<not> earlier a b"
    have "earlier b a \<or> (year a = year b \<and> month a = month b \<and> day a = day b)"
      using not by (auto simp: earlier_def)
    then have "toordinal b \<le> toordinal a"
      using toordinal_mono [OF assms(2,1)] by (auto simp: toordinal_def)
    with neg show False
      by (simp add: days_between_def)
  qed
qed

subsection \<open>Gathering the dates of an element\<close>

lemmas strptime_defs = strptime_ymd_def year_field_def month_field_def day_field_def number_def
  is_digit_def digit_value_def days_in_month_def is_leap_def

lemmas date_example_defs = election_backwards_def election_open_ended_def election_undated_def
  election_bad_start_def date_field_def new_date_rule_def DateRule_init_def

lemma strptime_ymd_examples:
  "strptime_ymd ''2024-02-30'' = None"
  "strptime_ymd ''2024-02-29'' = Some \<lparr>year = 2024, month = 2, day = 29\<rparr>"
  "strptime_ymd ''2023-02-29'' = None"
  "strptime_ymd ''2024-2-3'' = Some \<lparr>year = 2024, month = 2, day = 3\<rparr>"
  "strptime_ymd ''2024-13-01'' = None"
  "strptime_ymd ''24-01-01'' = None"
  "strptime_ymd ''2024-01-01 '' = None"
  by (simp_all add: strptime_defs)

lemma gathered_rule_eq:
  "gathered_rule =
     \<lparr>today = \<lparr>year = 2024, month = 1, day = 15\<rparr>,
      start_elem = Some (date_field ''StartDate'' ''2024-02-01'' 11),
      start_date = Some \<lparr>year = 2024, month = 2, day = 1\<rparr>,
      end_elem = Some (date_field ''EndDate'' ''2024-01-01'' 12),
      end_date = Some \<lparr>year = 2024, month = 1, day = 1\<rparr>,
      rule_error_log = []\<rparr>"
  by (simp add: gathered_rule_def gather_dates_def read_date_def find_child_def Let_def
      date_example_defs strptime_defs)

lemma stale_rule_eq:
  "stale_rule =
     \<lparr>today = \<lparr>year = 2024, month = 1, day = 15\<rparr>,
      start_elem = Some (date_field ''StartDate'' ''2024-03-01'' 21),
      start_date = Some \<lparr>year = 2024, month = 3, day = 1\<rparr>,
      end_elem = None,
      end_date = Some \<lparr>year = 2024, month = 1, day = 1\<rparr>,
      rule_error_log = []\<rparr>"
  by (simp add: stale_rule_def gathered_rule_eq gather_dates_def read_date_def find_child_def
      Let_def date_example_defs strptime_defs)

text \<open>
  A field that is present but has no text makes \<open>strptime\<close> raise \<open>TypeError\<close>, which
  \<open>gather_dates\<close> does not catch.
\<close>

lemma gather_dates_without_text:
  assumes "find_child element ''StartDate'' = Some el" and "text_of el = None"
  shows "gather_dates strptime self element = (Some TypeError, self\<lparr>start_elem := Some el\<rparr>)"
  using assms by (simp add: gather_dates_def read_date_def Let_def)

text \<open>
  C9, as the code has it. Let each of the fields \<open>StartDate\<close> and \<open>EndDate\<close> of the
  element, where present, have text. \<open>gather_dates\<close> examines both fields; each field
  that is present and whose text the parser rejects adds one entry, with the field's
  source line, to the local log; the call raises an \<open>ElectionError\<close> carrying that log
  exactly when the log is not empty, and returns normally otherwise. Either way the
  instance then holds the two fields found and, for each field that parsed, its date; the
  date of a field that is absent or did not parse is the one the instance held before the
  call.
\<close>

theorem gather_dates_logs_malformed_fields:
  assumes "has_text (find_child element ''StartDate'')"
    and "has_text (find_child element ''EndDate'')"
  shows "gather_dates strptime self element =
     ((if malformed strptime (find_child element ''StartDate'')
            ''The StartDate text should be of the format yyyy-mm-dd'' @
          malformed strptime (find_child element ''EndDate'')
            ''The EndDate text should be of the format yyyy-mm-dd'' = []
       then None
       else Some (election_error ''The format for the election dates are invalid: ''
              (malformed strptime (find_child element ''StartDate'')
                 ''The StartDate text should be of the format yyyy-mm-dd'' @
               malformed strptime (find_child element ''EndDate'')
                 ''The EndDate text should be of the format yyyy-mm-dd''))),
      self\<lparr>start_elem := find_child element ''StartDate'',
           start_date := stored strptime (find_child element ''StartDate'') (start_date self),
           end_elem := find_child element ''EndDate'',
           end_date := stored strptime (find_child element ''EndDate'') (end_date self)\<rparr>)"
  using assms
  by (auto simp: gather_dates_def read_date_def malformed_def stored_def has_text_def Let_def
      split: option.splits)

theorem gather_dates_logs_malformed_fields_witness:
  "has_text (find_child election_bad_start ''StartDate'') \<and>
   has_text (find_child election_bad_start ''EndDate'') \<and>
   gather_dates strptime_ymd new_date_rule election_bad_start =
     (Some (election_error ''The format for the election dates are invalid: ''
        [\<lparr>line = Some 41,
          message = ''The StartDate text should be of the format yyyy-mm-dd''\<rparr>]),
      new_date_rule\<lparr>start_elem := Some (date_field ''StartDate'' ''2024-02-30'' 41),
        end_elem := Some (date_field ''EndDate'' ''2024-03-01'' 42),
        end_date := Some \<lparr>year = 2024, month = 3, day = 1\<rparr>\<rparr>)"
proof -
  have s: "find_child election_bad_start ''StartDate'' = Some (date_field ''StartDate'' ''2024-02-30'' 41)"
    and e: "find_child election_bad_start ''EndDate'' = Some (date_field ''EndDate'' ''2024-03-01'' 42)"
    by (simp_all add: find_child_def date_example_defs)
  have t: "has_text (find_child election_bad_start ''StartDate'')"
    "has_text (find_child election_bad_start ''EndDate'')"
    by (simp_all add: s e has_text_def date_field_def)
  have bad: "strptime_ymd ''2024-02-30'' = None"
    by (simp add: strptime_defs)
  have good: "strptime_ymd ''2024-03-01'' = Some \<lparr>year = 2024, month = 3, day = 1\<rparr>"
    by (simp add: strptime_defs)
  from gather_dates_logs_malformed_fields [OF t, of strptime_ymd new_date_rule] t
  show ?thesis
    by (simp add: s e malformed_def stored_def date_field_def bad good new_date_rule_def
        DateRule_init_def)
qed

text \<open>
  C9 as stated fails on an instance that is used again without a reset: for an element
  with no \<open>StartDate\<close> the call returns normally and the start date held is still the
  one of the element before, not absent.
\<close>

theorem stale_date_survives_gather_dates:
  "start_date gathered_rule = Some \<lparr>year = 2024, month = 2, day = 1\<rparr> \<and>
   find_child election_undated ''StartDate'' = None \<and>
   fst (gather_dates strptime_ymd gathered_rule election_undated) = None \<and>
   start_date (snd (gather_dates strptime_ymd gathered_rule election_undated)) =
     Some \<lparr>year = 2024, month = 2, day = 1\<rparr>"
  by (simp add: gathered_rule_eq gather_dates_def find_child_def Let_def election_undated_def)

subsection \<open>End after start\<close>

text \<open>
  C10, as the code has it. \<open>check_end_after_start\<close> raises \<open>TypeError\<close> when the start
  date or the end date is absent. When both are held, it returns without a change if the
  end is not before the start; if the end is strictly before the start it reads the source
  line of the end element, so it raises \<open>AttributeError\<close> when that element is absent,
  and otherwise appends exactly one entry to the error log of the instance.
\<close>

theorem check_end_after_start_needs_dates_and_element:
  "(start_date self = None \<or> end_date self = None \<longrightarrow>
      check_end_after_start self = (Some TypeError, self)) \<and>
   (start_date self = Some s \<and> end_date self = Some e \<and> valid_date s \<and> valid_date e \<longrightarrow>
      (\<not> earlier e s \<longrightarrow> check_end_after_start self = (None, self)) \<and>
      (earlier e s \<and> end_elem self = None \<longrightarrow>
         check_end_after_start self = (Some AttributeError, self)) \<and>
      (earlier e s \<and> end_elem self = Some el \<longrightarrow>
         check_end_after_start self =
           (None, self\<lparr>rule_error_log := rule_error_log self @
              [\<lparr>line = sourceline el, message = end_after_start_message s e\<rparr>]\<rparr>)))"
proof -
  have none: "check_end_after_start self = (Some TypeError, self)"
    if "start_date self = None \<or> end_date self = None"
    using that by (auto simp: check_end_after_start_def split: option.splits)
  have some: "(\<not> earlier e s \<longrightarrow> check_end_after_start self = (None, self)) \<and>
      (earlier e s \<and> end_elem self = None \<longrightarrow>
         check_end_after_start self = (Some AttributeError, self)) \<and>
      (earlier e s \<and> end_elem self = Some el \<longrightarrow>
         check_end_after_start self =
           (None, self\<lparr>rule_error_log := rule_error_log self @
              [\<lparr>line = sourceline el, message = end_after_start_message s e\<rparr>]\<rparr>))"
    if "start_date self = Some s" "end_date self = Some e" "valid_date s" "valid_date e"
    using that days_between_negative [of e s]
    by (simp add: check_end_after_start_def Let_def)
  from none some show ?thesis
    by blast
qed

theorem check_end_after_start_needs_dates_and_element_witness:
  "start_date gathered_rule = Some \<lparr>year = 2024, month = 2, day = 1\<rparr> \<and>
   end_date gathered_rule = Some \<lparr>year = 2024, month = 1, day = 1\<rparr> \<and>
   valid_date \<lparr>year = 2024, month = 2, day = 1\<rparr> \<and>
   valid_date \<lparr>year = 2024, month = 1, day = 1\<rparr> \<and>
   earlier \<lparr>year = 2024, month = 1, day = 1\<rparr> \<lparr>year = 2024, month = 2, day = 1\<rparr> \<and>
   check_end_after_start gathered_rule =
     (None, gathered_rule\<lparr>rule_error_log :=
        [\<lparr>line = Some 12,
          message = ''The dates (start: 2024-02-01, end: 2024-01-01) are invalid.'' @ [CHR 0x0A] @
            ''      The end date must be the same or after the start date.''\<rparr>]\<rparr>)"
proof -
  let ?s = "\<lparr>year = 2024, month = 2, day = 1\<rparr>"
  let ?e = "\<lparr>year = 2024, month = 1, day = 1\<rparr>"
  have v: "valid_date ?s" "valid_date ?e"
    by (simp_all add: valid_date_def days_in_month_def is_leap_def)
  have before: "earlier ?e ?s"
    by (simp add: earlier_def)
  have msg: "end_after_start_message ?s ?e =
      ''The dates (start: 2024-02-01, end: 2024-01-01) are invalid.'' @ [CHR 0x0A] @
      ''      The end date must be the same or after the start date.''"
    by (simp add: end_after_start_message_def isoformat_def rjust_def show_int_def show_nat.simps)
  from check_end_after_start_needs_dates_and_element
    [of gathered_rule ?s ?e "date_field ''EndDate'' ''2024-01-01'' 12"] v before msg
  show ?thesis
    by (simp add: gathered_rule_eq date_field_def)
qed

text \<open>
  C10 as stated fails: after \<open>gather_dates\<close> on an election whose end is before its
  start and then, with no reset, on an election with only a start date, both dates are
  held and the end is before the start, yet the call raises \<open>AttributeError\<close> and logs
  nothing.
\<close>

theorem check_end_after_start_fails_without_end_element:
  "start_date stale_rule = Some \<lparr>year = 2024, month = 3, day = 1\<rparr> \<and>
   end_date stale_rule = Some \<lparr>year = 2024, month = 1, day = 1\<rparr> \<and>
   earlier \<lparr>year = 2024, month = 1, day = 1\<rparr> \<lparr>year = 2024, month = 3, day = 1\<rparr> \<and>
   check_end_after_start stale_rule = (Some AttributeError, stale_rule)"
  by (simp add: stale_rule_eq check_end_after_start_def days_between_def toordinal_def
      days_before_year_def days_before_month_def is_leap_def earlier_def)


end
